theory Spec2Isabelle
  imports Complex_Main "HOL-Library.Finite_Map" "HOL-Library.Sublist" "HOL-Library.Multiset"
begin

section \<open>Values of the program\<close>

text \<open>
  The server (\<^verbatim>\<open>server.js\<close>) keeps its tasks as plain JavaScript objects built from
  parsed JSON, and no field of a request is typed by the code. The model therefore works
  on JSON values. An object is a finite map from property names to values; the order of
  the properties, which only shows in the text written by \<^verbatim>\<open>JSON.stringify\<close>, is not
  part of the model. A property that is absent reads as \<^verbatim>\<open>undefined\<close>, which the model
  writes \<open>None\<close>. A number is the exact value of the double it stands for (the model has
  no infinities and no NaN inside JSON values, as a parsed request has none short of an
  overflowing literal). A string is a sequence of UTF-16 code units, and a character of
  the model is a code unit below 256: the strings of the model are the JavaScript strings
  over U+0000 to U+00FF (Latin-1), and a string with any other code unit is outside
  the model. On these strings \<^verbatim>\<open>trim\<close> and \<^verbatim>\<open>toLowerCase\<close> are defined as ECMAScript
  defines them.
\<close>

datatype json =
    JNull
  | JBool bool
  | JNum rat
  | JStr string
  | JArr "json list"
  | JObj "(string, json) fmap"

type_synonym obj = "(string, json) fmap"

text \<open>What a \<^verbatim>\<open>try\<close> block of a handler can catch.\<close>

datatype error = TypeError | IOError

subsection \<open>Property access, truthiness, defaults\<close>

text \<open>
  \<^verbatim>\<open>data.name\<close> for the property names the server reads (\<^verbatim>\<open>title\<close>, \<^verbatim>\<open>status\<close>,
  \<^verbatim>\<open>priority\<close>, \<^verbatim>\<open>tags\<close>, \<^verbatim>\<open>description\<close>, \<^verbatim>\<open>assignee\<close>, \<^verbatim>\<open>order\<close>, \<^verbatim>\<open>tasks\<close>): an
  object gives its own property, and a number, a boolean, a string or an array has none
  of these names. Reading a property of \<^verbatim>\<open>null\<close> throws; \<open>is_nullish\<close> is tested where the
  source would throw.
\<close>

fun field :: "json \<Rightarrow> string \<Rightarrow> json option" where
  "field (JObj m) k = fmlookup m k"
| "field _ k = None"

fun is_nullish :: "json \<Rightarrow> bool" where
  "is_nullish JNull = True"
| "is_nullish _ = False"

fun truthy :: "json option \<Rightarrow> bool" where
  "truthy None = False"
| "truthy (Some JNull) = False"
| "truthy (Some (JBool b)) = b"
| "truthy (Some (JNum n)) = (n \<noteq> 0)"
| "truthy (Some (JStr s)) = (s \<noteq> [])"
| "truthy (Some (JArr xs)) = True"
| "truthy (Some (JObj m)) = True"

text \<open>\<^verbatim>\<open>x || d\<close> where \<open>d\<close> is a JSON value.\<close>

definition or_default :: "json option \<Rightarrow> json \<Rightarrow> json" where
  "or_default x d = (case x of Some v \<Rightarrow> (if truthy (Some v) then v else d) | None \<Rightarrow> d)"

text \<open>\<^verbatim>\<open>x !== undefined ? x : d\<close>, with \<open>d\<close> possibly \<^verbatim>\<open>undefined\<close> itself.\<close>

definition if_defined :: "json option \<Rightarrow> json option \<Rightarrow> json option" where
  "if_defined x d = (case x of Some v \<Rightarrow> Some v | None \<Rightarrow> d)"

text \<open>
  Writing a property whose value may be \<^verbatim>\<open>undefined\<close>. An object holding
  \<^verbatim>\<open>undefined\<close> under a name reads, spreads and serialises like one without the name, so
  the model drops the name.
\<close>

definition put :: "string \<Rightarrow> json option \<Rightarrow> obj \<Rightarrow> obj" where
  "put k v m = (case v of Some x \<Rightarrow> fmupd k x m | None \<Rightarrow> fmdrop k m)"

subsection \<open>Strings\<close>

text \<open>
  \<^verbatim>\<open>String.prototype.trim\<close> strips the code units of WhiteSpace and LineTerminator from both
  ends. Below 256 these are U+0009 to U+000D, U+0020 and the no-break space U+00A0 (the
  others are U+1680, U+2000 to U+200A, U+2028, U+2029, U+202F, U+205F, U+3000 and U+FEFF).
\<close>

definition is_ws :: "char \<Rightarrow> bool" where
  "is_ws c = (c \<in> set [CHR '' '', CHR 0x09, CHR 0x0A, CHR 0x0B, CHR 0x0C, CHR 0x0D, CHR 0xA0])"

definition trim :: "string \<Rightarrow> string" where
  "trim s = rev (dropWhile is_ws (rev (dropWhile is_ws s)))"

text \<open>
  \<^verbatim>\<open>String.prototype.toLowerCase\<close> maps each code point by the Unicode lower-case mapping.
  Below 256 the letters that have one are U+0041 to U+005A, U+00C0 to U+00D6 and U+00D8 to
  U+00DE, each mapped to the code point 32 above it; U+00D7 is the multiplication sign.
\<close>

definition lower_char :: "char \<Rightarrow> char" where
  "lower_char c =
     (if ((65::nat) \<le> of_char c \<and> of_char c \<le> (90::nat))
         \<or> ((192::nat) \<le> of_char c \<and> of_char c \<le> (222::nat) \<and> of_char c \<noteq> (215::nat))
      then char_of (of_char c + (32::nat)) else c)"

definition toLowerCase :: "string \<Rightarrow> string" where
  "toLowerCase s = map lower_char s"

text \<open>\<^verbatim>\<open>hay.includes(needle)\<close> on strings.\<close>

fun str_includes :: "string \<Rightarrow> string \<Rightarrow> bool" where
  "str_includes [] needle = (needle = [])"
| "str_includes (c # cs) needle = (prefix needle (c # cs) \<or> str_includes cs needle)"

text \<open>\<^verbatim>\<open>xs.join(sep)\<close> on an array of strings.\<close>

fun join :: "string \<Rightarrow> string list \<Rightarrow> string" where
  "join sep [] = []"
| "join sep [x] = x"
| "join sep (x # y # ys) = x @ sep @ join sep (y # ys)"

text \<open>A natural number in a template literal.\<close>

definition digit :: "nat \<Rightarrow> char" where
  "digit n = char_of (48 + n)"

fun show_nat :: "nat \<Rightarrow> string" where
  "show_nat n = (if n < 10 then [digit n] else show_nat (n div 10) @ [digit (n mod 10)])"

declare show_nat.simps [simp del]

section \<open>The validator\<close>

definition VALID_STATUSES :: "string list" where
  "VALID_STATUSES = [''backlog'', ''todo'', ''in_progress'', ''review'', ''done'']"

definition VALID_PRIORITIES :: "string list" where
  "VALID_PRIORITIES = [''low'', ''medium'', ''high'', ''critical'']"

text \<open>\<^verbatim>\<open>LIST.includes(x)\<close> on an array of strings: only a string can be a member.\<close>

fun member_of :: "string list \<Rightarrow> json option \<Rightarrow> bool" where
  "member_of xs (Some (JStr s)) = (s \<in> set xs)"
| "member_of xs _ = False"

fun is_string :: "json \<Rightarrow> bool" where
  "is_string (JStr s) = True"
| "is_string _ = False"

fun is_array :: "json \<Rightarrow> bool" where
  "is_array (JArr xs) = True"
| "is_array _ = False"

text \<open>\<^verbatim>\<open>x !== undefined && !P(x)\<close>.\<close>

definition defined_and_not :: "(json \<Rightarrow> bool) \<Rightarrow> json option \<Rightarrow> bool" where
  "defined_and_not P x = (case x of Some v \<Rightarrow> \<not> P v | None \<Rightarrow> False)"

definition status_message :: string where
  "status_message = ''Status must be one of: '' @ join '', '' VALID_STATUSES"

definition priority_message :: string where
  "priority_message = ''Priority must be one of: '' @ join '', '' VALID_PRIORITIES"

text \<open>
  The third test of \<^verbatim>\<open>validateTaskInput\<close>,
  \<^verbatim>\<open>data.title !== undefined && data.title.trim().length === 0\<close>: a title that is not a
  string has no \<^verbatim>\<open>trim\<close> method, and the call throws.
\<close>

fun title_empty_check :: "json option \<Rightarrow> error + string list" where
  "title_empty_check None = Inr []"
| "title_empty_check (Some (JStr s)) =
     Inr (if length (trim s) = 0 then [''Title cannot be empty''] else [])"
| "title_empty_check (Some _) = Inl TypeError"

text \<open>
  The last test, \<^verbatim>\<open>data.tags !== undefined && !data.tags.every(tag => typeof tag === 'string')\<close>:
  only an array has \<^verbatim>\<open>every\<close>.
\<close>

fun tags_every_check :: "json option \<Rightarrow> error + string list" where
  "tags_every_check None = Inr []"
| "tags_every_check (Some (JArr xs)) =
     Inr (if \<not> list_all is_string xs then [''All tags must be strings''] else [])"
| "tags_every_check (Some _) = Inl TypeError"

definition validateTaskInput :: "json \<Rightarrow> bool \<Rightarrow> error + string list" where
  "validateTaskInput data isUpdate =
     (if is_nullish data then Inl TypeError
      else
        (let title = field data ''title'';
             status = field data ''status'';
             priority = field data ''priority'';
             tags = field data ''tags'';
             e1 = (if \<not> isUpdate \<and> \<not> truthy title then [''Title is required''] else []);
             e2 = (if defined_and_not is_string title then [''Title must be a string''] else []);
             e4 = (if status \<noteq> None \<and> \<not> member_of VALID_STATUSES status
                   then [status_message] else []);
             e5 = (if priority \<noteq> None \<and> \<not> member_of VALID_PRIORITIES priority
                   then [priority_message] else []);
             e6 = (if defined_and_not is_array tags then [''Tags must be an array''] else [])
         in (case title_empty_check title of
               Inl e \<Rightarrow> Inl e
             | Inr e3 \<Rightarrow>
                 (case tags_every_check tags of
                    Inl e \<Rightarrow> Inl e
                  | Inr e7 \<Rightarrow> Inr (e1 @ e2 @ e3 @ e4 @ e5 @ e6 @ e7)))))"

section \<open>Time\<close>

text \<open>
  \<^verbatim>\<open>Date.now()\<close> is a number of milliseconds since the epoch, and
  \<^verbatim>\<open>new Date(t).toISOString()\<close> writes it as \<^verbatim>\<open>YYYY-MM-DDTHH:mm:ss.sssZ\<close>. These are
  built into the language; the definitions follow the ECMAScript specification
  (\<open>Day\<close>, \<open>DayFromYear\<close>, \<open>YearFromTime\<close>, \<open>MonthFromTime\<close>, \<open>DateFromTime\<close>), with
  days in place of milliseconds where the specification's functions only look at the day.
  A year outside 0..9999 is written with a sign and six digits. The current time is
  always a valid date, so the \<^verbatim>\<open>RangeError\<close> of an invalid date is not in the model.
\<close>

definition msPerDay :: int where
  "msPerDay = 86400000"

definition DayFromYear :: "int \<Rightarrow> int" where
  "DayFromYear y = 365 * (y - 1970) + (y - 1969) div 4 - (y - 1901) div 100 + (y - 1601) div 400"

definition DaysInYear :: "int \<Rightarrow> int" where
  "DaysInYear y = DayFromYear (y + 1) - DayFromYear y"

lemma div_succ:
  fixes x n :: int
  assumes "0 < n"
  shows "(x + 1) div n = (if (x + 1) mod n = 0 then x div n + 1 else x div n)"
proof -
  have r: "0 \<le> x mod n" "x mod n < n" using assms by simp_all
  have e: "x + 1 = n * (x div n) + (x mod n + 1)" by simp
  show ?thesis
  proof (cases "x mod n + 1 = n")
    case True
    then have e': "x + 1 = n * (x div n + 1) + 0" using e by (simp add: algebra_simps)
    have "(x + 1) div n = x div n + 1"
      using int_div_pos_eq [OF e'] assms by simp
    moreover have "(x + 1) mod n = 0"
      using int_mod_pos_eq [OF e'] assms by simp
    ultimately show ?thesis by simp
  next
    case False
    with r have lt: "x mod n + 1 < n" by simp
    have "(x + 1) div n = x div n"
      using int_div_pos_eq [OF e] r lt by simp
    moreover have "(x + 1) mod n = x mod n + 1"
      using int_mod_pos_eq [OF e] r lt by simp
    ultimately show ?thesis using r by simp
  qed
qed

lemma DayFromYear_Suc:
  "DayFromYear (y + 1) = DayFromYear y + 365 + (if (y - 1968) mod 4 = 0 then 1 else 0)
     - (if (y - 1900) mod 100 = 0 then 1 else 0) + (if (y - 1600) mod 400 = 0 then 1 else 0)"
proof -
  have a: "(y + 1 - 1969) div 4 =
      (if (y - 1968) mod 4 = 0 then (y - 1969) div 4 + 1 else (y - 1969) div 4)"
    using div_succ [of 4 "y - 1969"] by (simp add: algebra_simps)
  have b: "(y + 1 - 1901) div 100 =
      (if (y - 1900) mod 100 = 0 then (y - 1901) div 100 + 1 else (y - 1901) div 100)"
    using div_succ [of 100 "y - 1901"] by (simp add: algebra_simps)
  have c: "(y + 1 - 1601) div 400 =
      (if (y - 1600) mod 400 = 0 then (y - 1601) div 400 + 1 else (y - 1601) div 400)"
    using div_succ [of 400 "y - 1601"] by (simp add: algebra_simps)
  show ?thesis unfolding DayFromYear_def a b c by simp
qed

lemma DayFromYear_step: "DayFromYear y + 365 \<le> DayFromYear (y + 1)"
proof -
  have "(y - 1900) mod 100 = 0 \<Longrightarrow> (y - 1968) mod 4 = 0" by presburger
  then show ?thesis by (simp add: DayFromYear_Suc)
qed

lemma DayFromYear_step_le: "DayFromYear (y + 1) \<le> DayFromYear y + 366"
proof -
  have "(y - 1600) mod 400 = 0 \<Longrightarrow> (y - 1900) mod 100 = 0" by presburger
  then show ?thesis by (auto simp add: DayFromYear_Suc)
qed

text \<open>
  \<open>YearFromTime\<close> is the largest year whose first day is not after the given day: a
  search upwards from a year that is not after it.
\<close>

function year_search :: "int \<Rightarrow> int \<Rightarrow> int" where
  "year_search d y = (if DayFromYear (y + 1) \<le> d then year_search d (y + 1) else y)"
  by pat_completeness auto
termination
proof (relation "measure (\<lambda>(d, y). nat (d - DayFromYear y))")
  show "wf (measure (\<lambda>(d, y). nat (d - DayFromYear y)))"
    by simp
next
  fix d y :: int
  assume "DayFromYear (y + 1) \<le> d"
  with DayFromYear_step [of y]
  show "((d, y + 1), (d, y)) \<in> measure (\<lambda>(d, y). nat (d - DayFromYear y))"
    by simp
qed

declare year_search.simps [simp del]

definition YearFromDay :: "int \<Rightarrow> int" where
  "YearFromDay d = year_search d (1970 + (if 0 \<le> d then d div 366 else d div 365))"

definition MonthFromDay :: "int \<Rightarrow> int \<Rightarrow> int" where
  "MonthFromDay leap dwy =
     (if dwy < 31 then 0
      else if dwy < 59 + leap then 1
      else if dwy < 90 + leap then 2
      else if dwy < 120 + leap then 3
      else if dwy < 151 + leap then 4
      else if dwy < 181 + leap then 5
      else if dwy < 212 + leap then 6
      else if dwy < 243 + leap then 7
      else if dwy < 273 + leap then 8
      else if dwy < 304 + leap then 9
      else if dwy < 334 + leap then 10
      else 11)"

definition DateFromDay :: "int \<Rightarrow> int \<Rightarrow> int" where
  "DateFromDay leap dwy =
     (let m = MonthFromDay leap dwy in
      if m = 0 then dwy + 1
      else if m = 1 then dwy - 30
      else if m = 2 then dwy - 58 - leap
      else if m = 3 then dwy - 89 - leap
      else if m = 4 then dwy - 119 - leap
      else if m = 5 then dwy - 150 - leap
      else if m = 6 then dwy - 180 - leap
      else if m = 7 then dwy - 211 - leap
      else if m = 8 then dwy - 242 - leap
      else if m = 9 then dwy - 272 - leap
      else if m = 10 then dwy - 303 - leap
      else dwy - 333 - leap)"

text \<open>\<open>pad w n\<close>: the last \<open>w\<close> decimal digits of \<open>n\<close>.\<close>

fun pad :: "nat \<Rightarrow> nat \<Rightarrow> string" where
  "pad 0 n = []"
| "pad (Suc w) n = pad w (n div 10) @ [digit (n mod 10)]"

definition year_string :: "int \<Rightarrow> string" where
  "year_string y =
     (if 0 \<le> y \<and> y \<le> 9999 then pad 4 (nat y)
      else (if y < 0 then ''-'' else ''+'') @ pad 6 (nat \<bar>y\<bar>))"

definition toISOString :: "int \<Rightarrow> string" where
  "toISOString t =
     (let d = t div msPerDay;
          y = YearFromDay d;
          leap = (if DaysInYear y = 366 then 1 else 0);
          dwy = d - DayFromYear y
      in year_string y @ ''-'' @ pad 2 (nat (MonthFromDay leap dwy + 1)) @ ''-''
         @ pad 2 (nat (DateFromDay leap dwy)) @ ''T''
         @ pad 2 (nat ((t div 3600000) mod 24)) @ '':''
         @ pad 2 (nat ((t div 60000) mod 60)) @ '':''
         @ pad 2 (nat ((t div 1000) mod 60)) @ ''.''
         @ pad 3 (nat (t mod 1000)) @ ''Z'')"

text \<open>\<^verbatim>\<open>a <= b\<close> on two strings: code units compared from the left, a prefix first.\<close>

fun str_le :: "string \<Rightarrow> string \<Rightarrow> bool" where
  "str_le [] ys = True"
| "str_le (x # xs) [] = False"
| "str_le (x # xs) (y # ys) =
     ((of_char x :: nat) < of_char y \<or> (x = y \<and> str_le xs ys))"

subsection \<open>The text of a date orders as the date\<close>

text \<open>
  The statistics compare \<^verbatim>\<open>updated_at\<close> with the text of a date, as strings. For the
  times from the epoch to the end of the year 9999 the comparison of the texts is the
  comparison of the times: the year is the largest one whose first day is not after the
  day, the month and the date grow with the day inside a year, and the digits of each
  field, padded to a fixed width, compare as the field.
\<close>


lemma str_le_refl [simp]: "str_le xs xs"
  by (induction xs) simp_all

lemma str_le_append:
  "length p = length q \<Longrightarrow> str_le (p @ xs) (q @ ys) = (if p = q then str_le xs ys else str_le p q)"
proof (induction p arbitrary: q)
  case Nil
  then show ?case by simp
next
  case (Cons c p)
  then obtain d q' where q: "q = d # q'" "length p = length q'"
    by (cases q) auto
  show ?case
  proof (cases "c = d")
    case True
    with q Cons.IH [of q'] show ?thesis by simp
  next
    case False
    with q show ?thesis by simp
  qed
qed

lemma length_pad [simp]: "length (pad w n) = w"
  by (induction w arbitrary: n) simp_all

lemma of_char_digit: "n < 10 \<Longrightarrow> (of_char (digit n) :: nat) = 48 + n"
  by (simp add: digit_def)

lemma digit_inj:
  assumes "a < 10" "b < 10" "digit a = digit b"
  shows "a = b"
proof -
  have "(of_char (digit a) :: nat) = of_char (digit b)"
    using assms(3) by (rule arg_cong)
  then have "48 + a = 48 + b"
    by (simp only: of_char_digit [OF assms(1)] of_char_digit [OF assms(2)])
  then show ?thesis by simp
qed

lemma pad_eq_iff: "a < 10 ^ w \<Longrightarrow> b < 10 ^ w \<Longrightarrow> pad w a = pad w b \<longleftrightarrow> a = b"
proof (induction w arbitrary: a b)
  case 0
  then show ?case by simp
next
  case (Suc w)
  then have "a div 10 < 10 ^ w" "b div 10 < 10 ^ w"
    by (simp_all add: less_mult_imp_div_less mult.commute)
  with Suc.IH [of "a div 10" "b div 10"]
  have 1: "pad w (a div 10) = pad w (b div 10) \<longleftrightarrow> a div 10 = b div 10" by simp
  have 2: "digit (a mod 10) = digit (b mod 10) \<longleftrightarrow> a mod 10 = b mod 10"
    using digit_inj [of "a mod 10" "b mod 10"] by auto
  have 3: "a = b \<longleftrightarrow> a div 10 = b div 10 \<and> a mod 10 = b mod 10"
    by (metis div_mult_mod_eq)
  show ?case by (simp add: 1 2) (simp add: 3)
qed


lemma str_le_digit:
  assumes "a < 10" "b < 10"
  shows "str_le [digit a] [digit b] \<longleftrightarrow> a \<le> b"
proof -
  have "digit a = digit b \<longleftrightarrow> a = b"
    using digit_inj [OF assms] by auto
  then show ?thesis
    by (auto simp: of_char_digit [OF assms(1)] of_char_digit [OF assms(2)])
qed

lemma le_div_mod_10:
  fixes a b :: nat
  shows "(if a div 10 = b div 10 then a mod 10 \<le> b mod 10 else a div 10 \<le> b div 10) = (a \<le> b)"
proof (cases "a div 10 = b div 10")
  case True
  then show ?thesis by (metis div_mult_mod_eq nat_add_left_cancel_le)
next
  case False
  have "a div 10 \<le> b div 10 \<longleftrightarrow> a \<le> b"
  proof
    assume "a div 10 \<le> b div 10"
    with False have "a div 10 < b div 10" by simp
    have "a < b"
    proof (rule ccontr)
      assume "\<not> a < b"
      then have "b \<le> a" by simp
      then have "b div 10 \<le> a div 10" by (rule div_le_mono)
      with \<open>a div 10 < b div 10\<close> show False by simp
    qed
    then show "a \<le> b" by simp
  next
    assume "a \<le> b"
    then show "a div 10 \<le> b div 10" by (rule div_le_mono)
  qed
  with False show ?thesis by simp
qed

lemma str_le_pad: "a < 10 ^ w \<Longrightarrow> b < 10 ^ w \<Longrightarrow> str_le (pad w a) (pad w b) \<longleftrightarrow> a \<le> b"
proof (induction w arbitrary: a b)
  case 0
  then show ?case by simp
next
  case (Suc w)
  then have lt: "a div 10 < 10 ^ w" "b div 10 < 10 ^ w"
    by (simp_all add: less_mult_imp_div_less mult.commute)
  have "str_le (pad (Suc w) a) (pad (Suc w) b)
          = (if pad w (a div 10) = pad w (b div 10)
             then str_le [digit (a mod 10)] [digit (b mod 10)]
             else str_le (pad w (a div 10)) (pad w (b div 10)))"
    by (simp add: str_le_append)
  also have "\<dots> = (if a div 10 = b div 10 then a mod 10 \<le> b mod 10 else a div 10 \<le> b div 10)"
  proof -
    have d: "str_le [digit (a mod 10)] [digit (b mod 10)] \<longleftrightarrow> a mod 10 \<le> b mod 10"
      by (rule str_le_digit) simp_all
    show ?thesis
      by (simp only: pad_eq_iff [OF lt] Suc.IH [OF lt] d)
  qed
  also have "\<dots> = (a \<le> b)"
    by (rule le_div_mod_10)
  finally show ?case .
qed

lemma str_le_pad_append:
  assumes "a < 10 ^ w" "b < 10 ^ w"
  shows "str_le (pad w a @ xs) (pad w b @ ys) = (if a = b then str_le xs ys else a < b)"
proof -
  have "str_le (pad w a @ xs) (pad w b @ ys)
          = (if pad w a = pad w b then str_le xs ys else str_le (pad w a) (pad w b))"
    by (simp add: str_le_append)
  also have "\<dots> = (if a = b then str_le xs ys else a \<le> b)"
    by (simp add: pad_eq_iff [OF assms] str_le_pad [OF assms])
  also have "\<dots> = (if a = b then str_le xs ys else a < b)"
    by auto
  finally show ?thesis .
qed


lemma DayFromYear_1970 [simp]: "DayFromYear 1970 = 0"
  by (simp add: DayFromYear_def)

lemma DayFromYear_mono: "y \<le> y' \<Longrightarrow> DayFromYear y \<le> DayFromYear y'"
proof (induction y' rule: int_ge_induct)
  case base
  show ?case by simp
next
  case (step i)
  with DayFromYear_step [of i] show ?case by simp
qed

lemma DayFromYear_less: "y < y' \<Longrightarrow> DayFromYear (y + 1) \<le> DayFromYear y'"
  by (rule DayFromYear_mono) simp

lemma DayFromYear_upper: "0 \<le> k \<Longrightarrow> DayFromYear (1970 + k) \<le> 366 * k"
proof (induction k rule: int_ge_induct)
  case base
  show ?case by simp
next
  case (step i)
  with DayFromYear_step_le [of "1970 + i"] show ?case by (simp add: algebra_simps)
qed

lemma year_search_spec:
  "DayFromYear y \<le> d
     \<Longrightarrow> DayFromYear (year_search d y) \<le> d \<and> d < DayFromYear (year_search d y + 1)"
proof (induction d y rule: year_search.induct)
  case (1 d y)
  show ?case
  proof (cases "DayFromYear (y + 1) \<le> d")
    case True
    then have "year_search d y = year_search d (y + 1)"
      by (subst year_search.simps) simp
    with "1.IH" [OF True True] show ?thesis by simp
  next
    case False
    then have "year_search d y = y"
      by (subst year_search.simps) simp
    with False "1.prems" show ?thesis by simp
  qed
qed

lemma YearFromDay_spec:
  assumes "0 \<le> d"
  shows "DayFromYear (YearFromDay d) \<le> d" and "d < DayFromYear (YearFromDay d + 1)"
proof -
  have "DayFromYear (1970 + d div 366) \<le> 366 * (d div 366)"
    using assms by (intro DayFromYear_upper) (simp add: pos_imp_zdiv_nonneg_iff)
  also have "\<dots> \<le> d"
  proof -
    have "d = 366 * (d div 366) + d mod 366" by simp
    moreover have "0 \<le> d mod 366" by simp
    ultimately show ?thesis by linarith
  qed
  finally have "DayFromYear (1970 + d div 366) \<le> d" .
  from year_search_spec [OF this] assms
  show "DayFromYear (YearFromDay d) \<le> d" and "d < DayFromYear (YearFromDay d + 1)"
    by (simp_all add: YearFromDay_def)
qed

lemma YearFromDay_unique:
  assumes "DayFromYear y \<le> d" "d < DayFromYear (y + 1)" "0 \<le> d"
  shows "YearFromDay d = y"
proof (rule ccontr)
  assume ne: "YearFromDay d \<noteq> y"
  note s = YearFromDay_spec [OF assms(3)]
  show False
  proof (cases "YearFromDay d < y")
    case True
    from DayFromYear_less [OF this] s assms show False by simp
  next
    case False
    with ne have "y < YearFromDay d" by simp
    from DayFromYear_less [OF this] s assms show False by simp
  qed
qed

lemma YearFromDay_mono:
  assumes "0 \<le> d" "d \<le> e"
  shows "YearFromDay d \<le> YearFromDay e"
proof (rule ccontr)
  assume "\<not> YearFromDay d \<le> YearFromDay e"
  then have "YearFromDay e < YearFromDay d" by simp
  from DayFromYear_less [OF this]
    YearFromDay_spec [OF assms(1)] YearFromDay_spec [of e] assms
  show False by simp
qed

lemma DaysInYear_cases: "DaysInYear y = 365 \<or> DaysInYear y = 366"
  using DayFromYear_step [of y] DayFromYear_step_le [of y]
  by (auto simp: DaysInYear_def DayFromYear_Suc split: if_splits)


lemma MonthFromDay_mono:
  "leap = 0 \<or> leap = 1 \<Longrightarrow> a \<le> b \<Longrightarrow> MonthFromDay leap a \<le> MonthFromDay leap b"
  by (auto simp: MonthFromDay_def)

lemma MonthFromDay_range: "0 \<le> MonthFromDay leap a" "MonthFromDay leap a \<le> 11"
  by (simp_all add: MonthFromDay_def)

lemma DateFromDay_same_month:
  "MonthFromDay leap a = MonthFromDay leap b
     \<Longrightarrow> DateFromDay leap a - DateFromDay leap b = a - b"
  by (simp add: DateFromDay_def Let_def)

lemma DateFromDay_range:
  assumes "leap = 0 \<or> leap = 1" "0 \<le> a" "a < 365 + leap"
  shows "1 \<le> DateFromDay leap a" "DateFromDay leap a \<le> 31"
  using assms by (auto simp: DateFromDay_def MonthFromDay_def Let_def split: if_splits)

text \<open>The fields of the date of a day, as \<open>toISOString\<close> computes them.\<close>

definition leap_of :: "int \<Rightarrow> int" where
  "leap_of d = (if DaysInYear (YearFromDay d) = 366 then 1 else 0)"

definition day_in_year :: "int \<Rightarrow> int" where
  "day_in_year d = d - DayFromYear (YearFromDay d)"

definition month_of :: "int \<Rightarrow> int" where
  "month_of d = MonthFromDay (leap_of d) (day_in_year d) + 1"

definition date_of :: "int \<Rightarrow> int" where
  "date_of d = DateFromDay (leap_of d) (day_in_year d)"

lemma leap_of_cases: "leap_of d = 0 \<or> leap_of d = 1"
  by (simp add: leap_of_def)

lemma day_in_year_range:
  assumes "0 \<le> d"
  shows "0 \<le> day_in_year d" "day_in_year d < 365 + leap_of d"
proof -
  show "0 \<le> day_in_year d"
    using YearFromDay_spec(1) [OF assms] by (simp add: day_in_year_def)
  have "d < DayFromYear (YearFromDay d) + DaysInYear (YearFromDay d)"
    using YearFromDay_spec(2) [OF assms] by (simp add: DaysInYear_def)
  then show "day_in_year d < 365 + leap_of d"
    using DaysInYear_cases [of "YearFromDay d"]
    by (auto simp: day_in_year_def leap_of_def)
qed

lemma month_of_range: "1 \<le> month_of d" "month_of d \<le> 12"
  using MonthFromDay_range [of "leap_of d" "day_in_year d"] by (simp_all add: month_of_def)

lemma date_of_range:
  assumes "0 \<le> d"
  shows "1 \<le> date_of d" "date_of d \<le> 31"
  using DateFromDay_range [where leap = "leap_of d" and a = "day_in_year d"]
    leap_of_cases [of d] day_in_year_range [OF assms]
  by (simp_all add: date_of_def)

lemma date_fields_less:
  assumes "0 \<le> d" "d < e"
  shows "YearFromDay d < YearFromDay e
         \<or> (YearFromDay d = YearFromDay e
             \<and> (month_of d < month_of e \<or> (month_of d = month_of e \<and> date_of d < date_of e)))"
proof (cases "YearFromDay d = YearFromDay e")
  case False
  with YearFromDay_mono [of d e] assms show ?thesis by simp
next
  case True
  then have l: "leap_of d = leap_of e" by (simp add: leap_of_def)
  from True assms have w: "day_in_year d < day_in_year e" by (simp add: day_in_year_def)
  show ?thesis
  proof (cases "month_of d = month_of e")
    case False
    with MonthFromDay_mono [where leap = "leap_of e" and a = "day_in_year d"
        and b = "day_in_year e"] leap_of_cases [of e] w l
    show ?thesis using True by (simp add: month_of_def)
  next
    case m: True
    then have "MonthFromDay (leap_of e) (day_in_year d) = MonthFromDay (leap_of e) (day_in_year e)"
      using l by (simp add: month_of_def)
    from DateFromDay_same_month [OF this] w l have "date_of d < date_of e"
      by (simp add: date_of_def)
    with True m show ?thesis by simp
  qed
qed

lemma date_fields_if:
  assumes "0 \<le> d" "0 \<le> e"
  shows "(if YearFromDay d = YearFromDay e
          then (if month_of d = month_of e
                then (if date_of d = date_of e then rest else date_of d < date_of e)
                else month_of d < month_of e)
          else YearFromDay d < YearFromDay e)
         = (if d = e then rest else d < e)"
proof (cases "d = e")
  case True
  then show ?thesis by simp
next
  case False
  show ?thesis
  proof (cases "d < e")
    case True
    from date_fields_less [OF assms(1) True] False True show ?thesis by auto
  next
    case f: False
    with False have "e < d" by simp
    from date_fields_less [OF assms(2) this] False f show ?thesis by auto
  qed
qed


lemma div_mod_eq_iff:
  fixes a b n :: int
  shows "a = b \<longleftrightarrow> a div n = b div n \<and> a mod n = b mod n"
proof
  assume "a = b"
  then show "a div n = b div n \<and> a mod n = b mod n" by simp
next
  assume h: "a div n = b div n \<and> a mod n = b mod n"
  have "a = n * (a div n) + a mod n" by (simp only: mult_div_mod_eq)
  also have "\<dots> = n * (b div n) + b mod n" using h by (simp only:)
  also have "\<dots> = b" by (simp only: mult_div_mod_eq)
  finally show "a = b" .
qed

lemma div_less_imp_less:
  fixes a b n :: int
  assumes "0 < n" "a div n < b div n"
  shows "a < b"
proof (rule ccontr)
  assume "\<not> a < b"
  then have "b \<le> a" by simp
  then have "b div n \<le> a div n" using assms(1) by (rule zdiv_mono1)
  with assms(2) show False by simp
qed

lemma lex_div_less:
  fixes a b n :: int
  assumes "0 < n"
  shows "(a < b) = (if a div n = b div n then a mod n < b mod n else a div n < b div n)"
proof (cases "a div n = b div n")
  case True
  have "(a < b) = (n * (a div n) + a mod n < n * (b div n) + b mod n)"
    by (simp only: mult_div_mod_eq)
  also have "\<dots> = (a mod n < b mod n)"
    by (simp only: True add_less_cancel_left)
  finally have e: "(a < b) = (a mod n < b mod n)" .
  show ?thesis unfolding e using True by simp
next
  case False
  have 1: "a < b \<Longrightarrow> a div n < b div n"
  proof -
    assume "a < b"
    then have "a \<le> b" by simp
    then have "a div n \<le> b div n" using assms by (rule zdiv_mono1)
    with False show ?thesis by simp
  qed
  have 2: "a div n < b div n \<Longrightarrow> a < b"
    by (rule div_less_imp_less [OF assms])
  from 1 2 have e: "(a < b) = (a div n < b div n)" by blast
  show ?thesis unfolding e using False by simp
qed

lemma lex_div_le:
  fixes a b n :: int
  assumes "0 < n"
  shows "(a \<le> b) = (if a div n = b div n then a mod n \<le> b mod n else a div n < b div n)"
proof (cases "a div n = b div n")
  case True
  have "(a \<le> b) = (n * (a div n) + a mod n \<le> n * (b div n) + b mod n)"
    by (simp only: mult_div_mod_eq)
  also have "\<dots> = (a mod n \<le> b mod n)"
    by (simp only: True add_le_cancel_left)
  finally have e: "(a \<le> b) = (a mod n \<le> b mod n)" .
  show ?thesis unfolding e using True by simp
next
  case False
  then have ne: "a \<noteq> b" by auto
  have "(a \<le> b) = (a < b)" using ne by auto
  also have "\<dots> = (a div n < b div n)"
    using lex_div_less [OF assms, of a b] False by simp
  finally have e: "(a \<le> b) = (a div n < b div n)" .
  show ?thesis unfolding e using False by simp
qed


lemma div_1000_60: "t div 1000 div 60 = t div 60000" for t :: int
  using zdiv_zmult2_eq [of 60 t 1000] by simp

lemma div_60000_60: "t div 60000 div 60 = t div 3600000" for t :: int
  using zdiv_zmult2_eq [of 60 t 60000] by simp

lemma div_3600000_24: "t div 3600000 div 24 = t div 86400000" for t :: int
  using zdiv_zmult2_eq [of 24 t 3600000] by simp

lemma le_by_seconds: "((a::int) \<le> b) = (if a div 1000 = b div 1000 then a mod 1000 \<le> b mod 1000
                          else a div 1000 < b div 1000)"
  by (rule lex_div_le) simp

lemma seconds_less: "((a::int) div 1000 < b div 1000)
              = (if a div 60000 = b div 60000 then (a div 1000) mod 60 < (b div 1000) mod 60
                 else a div 60000 < b div 60000)"
proof -
  have "(0::int) < 60" by simp
  from lex_div_less [OF this, of "a div 1000" "b div 1000"]
  show ?thesis by (simp only: div_1000_60)
qed

lemma seconds_eq: "((a::int) div 1000 = b div 1000)
              = (a div 60000 = b div 60000 \<and> (a div 1000) mod 60 = (b div 1000) mod 60)"
  using div_mod_eq_iff [of "a div 1000" "b div 1000" 60] by (simp only: div_1000_60)


lemma minutes_less: "((a::int) div 60000 < b div 60000)
              = (if a div 3600000 = b div 3600000
                 then (a div 60000) mod 60 < (b div 60000) mod 60
                 else a div 3600000 < b div 3600000)"
proof -
  have "(0::int) < 60" by simp
  from lex_div_less [OF this, of "a div 60000" "b div 60000"]
  show ?thesis by (simp only: div_60000_60)
qed

lemma minutes_eq: "((a::int) div 60000 = b div 60000)
              = (a div 3600000 = b div 3600000 \<and> (a div 60000) mod 60 = (b div 60000) mod 60)"
  using div_mod_eq_iff [of "a div 60000" "b div 60000" 60] by (simp only: div_60000_60)

lemma hours_less: "((a::int) div 3600000 < b div 3600000)
              = (if a div 86400000 = b div 86400000
                 then (a div 3600000) mod 24 < (b div 3600000) mod 24
                 else a div 86400000 < b div 86400000)"
proof -
  have "(0::int) < 24" by simp
  from lex_div_less [OF this, of "a div 3600000" "b div 3600000"]
  show ?thesis by (simp only: div_3600000_24)
qed

lemma hours_eq: "((a::int) div 3600000 = b div 3600000)
              = (a div 86400000 = b div 86400000
                 \<and> (a div 3600000) mod 24 = (b div 3600000) mod 24)"
  using div_mod_eq_iff [of "a div 3600000" "b div 3600000" 24] by (simp only: div_3600000_24)

lemma lex_fields:
  fixes x1 y1 x2 y2 x3 y3 x4 y4 :: int
  assumes "le0 = (if p1 then x1 \<le> y1 else lt1)"
    and "lt1 = (if p2 then x2 < y2 else lt2)" and "p1 = (p2 \<and> x2 = y2)"
    and "lt2 = (if p3 then x3 < y3 else lt3)" and "p2 = (p3 \<and> x3 = y3)"
    and "lt3 = (if p4 then x4 < y4 else lt4)" and "p3 = (p4 \<and> x4 = y4)"
  shows "(if p4
          then (if x4 = y4
                then (if x3 = y3
                      then (if x2 = y2
                            then (if x1 = y1 then True else x1 < y1)
                            else x2 < y2)
                      else x3 < y3)
                else x4 < y4)
          else lt4) = le0"
  using assms by auto

lemma time_fields_if:
  fixes a b :: int
  shows "(if a div 86400000 = b div 86400000
          then (if (a div 3600000) mod 24 = (b div 3600000) mod 24
                then (if (a div 60000) mod 60 = (b div 60000) mod 60
                      then (if (a div 1000) mod 60 = (b div 1000) mod 60
                            then (if a mod 1000 = b mod 1000 then True
                                  else a mod 1000 < b mod 1000)
                            else (a div 1000) mod 60 < (b div 1000) mod 60)
                      else (a div 60000) mod 60 < (b div 60000) mod 60)
                else (a div 3600000) mod 24 < (b div 3600000) mod 24)
          else a div 86400000 < b div 86400000)
         = (a \<le> b)"
  by (rule lex_fields [OF le_by_seconds seconds_less seconds_eq minutes_less minutes_eq hours_less hours_eq])


lemma str_le_pad_int:
  fixes x y :: int
  assumes "0 \<le> x" "x < 10 ^ w" "0 \<le> y" "y < 10 ^ w"
  shows "str_le (pad w (nat x) @ c # xs) (pad w (nat y) @ c # ys)
           = (if x = y then str_le xs ys else x < y)"
proof -
  have a: "nat x < 10 ^ w" using assms(1,2) by (simp add: nat_less_iff)
  have b: "nat y < 10 ^ w" using assms(3,4) by (simp add: nat_less_iff)
  have "str_le (pad w (nat x) @ c # xs) (pad w (nat y) @ c # ys)
          = (if nat x = nat y then str_le (c # xs) (c # ys) else nat x < nat y)"
    by (rule str_le_pad_append [OF a b])
  also have "\<dots> = (if x = y then str_le xs ys else x < y)"
    using assms(1,3) by auto
  finally show ?thesis .
qed

lemma iso_compare_fields:
  fixes Y M D h mi s ms Y' M' D' h' mi' s' ms' :: int
  assumes "0 \<le> Y" "Y < 10 ^ 4" "0 \<le> Y'" "Y' < 10 ^ 4"
    and "0 \<le> M" "M < 10 ^ 2" "0 \<le> M'" "M' < 10 ^ 2"
    and "0 \<le> D" "D < 10 ^ 2" "0 \<le> D'" "D' < 10 ^ 2"
    and "0 \<le> h" "h < 10 ^ 2" "0 \<le> h'" "h' < 10 ^ 2"
    and "0 \<le> mi" "mi < 10 ^ 2" "0 \<le> mi'" "mi' < 10 ^ 2"
    and "0 \<le> s" "s < 10 ^ 2" "0 \<le> s'" "s' < 10 ^ 2"
    and "0 \<le> ms" "ms < 10 ^ 3" "0 \<le> ms'" "ms' < 10 ^ 3"
  shows "str_le
           (pad 4 (nat Y) @ CHR ''-'' # pad 2 (nat M) @ CHR ''-'' # pad 2 (nat D) @ CHR ''T''
              # pad 2 (nat h) @ CHR '':'' # pad 2 (nat mi) @ CHR '':'' # pad 2 (nat s) @ CHR ''.''
              # pad 3 (nat ms) @ CHR ''Z'' # [])
           (pad 4 (nat Y') @ CHR ''-'' # pad 2 (nat M') @ CHR ''-'' # pad 2 (nat D') @ CHR ''T''
              # pad 2 (nat h') @ CHR '':'' # pad 2 (nat mi') @ CHR '':'' # pad 2 (nat s') @ CHR ''.''
              # pad 3 (nat ms') @ CHR ''Z'' # [])
         = (if Y = Y'
            then (if M = M'
                  then (if D = D'
                        then (if h = h'
                              then (if mi = mi'
                                    then (if s = s'
                                          then (if ms = ms' then True else ms < ms')
                                          else s < s')
                                    else mi < mi')
                              else h < h')
                        else D < D')
                  else M < M')
            else Y < Y')"
  by (simp only: str_le_pad_int [OF assms(1-4)] str_le_pad_int [OF assms(5-8)]
      str_le_pad_int [OF assms(9-12)] str_le_pad_int [OF assms(13-16)]
      str_le_pad_int [OF assms(17-20)] str_le_pad_int [OF assms(21-24)]
      str_le_pad_int [OF assms(25-28)] str_le_refl)


definition maxTime :: int where
  "maxTime = 253402300800000"

lemma DayFromYear_10000: "DayFromYear 10000 = 2932897"
  by (simp add: DayFromYear_def)

lemma YearFromDay_range:
  assumes "0 \<le> d" "d < 2932897"
  shows "1970 \<le> YearFromDay d" "YearFromDay d \<le> 9999"
proof -
  note s = YearFromDay_spec [OF assms(1)]
  show "1970 \<le> YearFromDay d"
  proof (rule ccontr)
    assume "\<not> 1970 \<le> YearFromDay d"
    then have "YearFromDay d < 1970" by simp
    from DayFromYear_less [OF this] s(2) assms(1) show False by simp
  qed
  show "YearFromDay d \<le> 9999"
  proof (rule ccontr)
    assume "\<not> YearFromDay d \<le> 9999"
    then have "10000 \<le> YearFromDay d" by simp
    from DayFromYear_mono [OF this] s(1) assms(2) show False
      by (simp add: DayFromYear_10000)
  qed
qed

lemma day_range:
  assumes "0 \<le> t" "t < maxTime"
  shows "0 \<le> t div 86400000" "t div 86400000 < 2932897"
proof -
  show "0 \<le> t div 86400000" using assms(1) by (simp add: pos_imp_zdiv_nonneg_iff)
  have "t < 2932897 * 86400000" using assms(2) by (simp add: maxTime_def)
  moreover have "t = 86400000 * (t div 86400000) + t mod 86400000"
    by (simp only: mult_div_mod_eq)
  moreover have "0 \<le> t mod 86400000" by simp
  ultimately have "86400000 * (t div 86400000) < 2932897 * 86400000" by linarith
  then show "t div 86400000 < 2932897" by simp
qed


lemma toISOString_form:
  assumes "0 \<le> t" "t < maxTime"
  shows "toISOString t
           = pad 4 (nat (YearFromDay (t div 86400000))) @ CHR ''-''
               # pad 2 (nat (month_of (t div 86400000))) @ CHR ''-''
               # pad 2 (nat (date_of (t div 86400000))) @ CHR ''T''
               # pad 2 (nat ((t div 3600000) mod 24)) @ CHR '':''
               # pad 2 (nat ((t div 60000) mod 60)) @ CHR '':''
               # pad 2 (nat ((t div 1000) mod 60)) @ CHR ''.''
               # pad 3 (nat (t mod 1000)) @ CHR ''Z'' # []"
proof -
  from YearFromDay_range [OF day_range [OF assms]]
  have "year_string (YearFromDay (t div 86400000)) = pad 4 (nat (YearFromDay (t div 86400000)))"
    by (simp add: year_string_def)
  then show ?thesis
    by (simp add: toISOString_def Let_def msPerDay_def month_of_def date_of_def leap_of_def
        day_in_year_def)
qed

theorem toISOString_order:
  assumes "0 \<le> a" "a < maxTime" "0 \<le> b" "b < maxTime"
  shows "str_le (toISOString a) (toISOString b) = (a \<le> b)"
proof -
  let ?da = "a div 86400000" and ?db = "b div 86400000"
  note ra = day_range [OF assms(1,2)] and rb = day_range [OF assms(3,4)]
  note ya = YearFromDay_range [OF ra] and yb = YearFromDay_range [OF rb]
  have Y: "0 \<le> YearFromDay ?da" "YearFromDay ?da < 10 ^ 4"
          "0 \<le> YearFromDay ?db" "YearFromDay ?db < 10 ^ 4"
    using ya yb by simp_all
  have M: "0 \<le> month_of ?da" "month_of ?da < 10 ^ 2" "0 \<le> month_of ?db" "month_of ?db < 10 ^ 2"
    using month_of_range [of ?da] month_of_range [of ?db] by simp_all
  have D: "0 \<le> date_of ?da" "date_of ?da < 10 ^ 2" "0 \<le> date_of ?db" "date_of ?db < 10 ^ 2"
    using date_of_range [OF ra(1)] date_of_range [OF rb(1)] by simp_all
  have m24: "0 \<le> x mod 24" "x mod 24 < 10 ^ 2" for x :: int
    using pos_mod_bound [of 24 x] by simp_all
  have m60: "0 \<le> x mod 60" "x mod 60 < 10 ^ 2" for x :: int
    using pos_mod_bound [of 60 x] by simp_all
  have m1000: "0 \<le> x mod 1000" "x mod 1000 < 10 ^ 3" for x :: int
    using pos_mod_bound [of 1000 x] by simp_all
  have "str_le (toISOString a) (toISOString b)
          = (if YearFromDay ?da = YearFromDay ?db
             then (if month_of ?da = month_of ?db
                   then (if date_of ?da = date_of ?db
                         then (if (a div 3600000) mod 24 = (b div 3600000) mod 24
                               then (if (a div 60000) mod 60 = (b div 60000) mod 60
                                     then (if (a div 1000) mod 60 = (b div 1000) mod 60
                                           then (if a mod 1000 = b mod 1000 then True
                                                 else a mod 1000 < b mod 1000)
                                           else (a div 1000) mod 60 < (b div 1000) mod 60)
                                     else (a div 60000) mod 60 < (b div 60000) mod 60)
                               else (a div 3600000) mod 24 < (b div 3600000) mod 24)
                         else date_of ?da < date_of ?db)
                   else month_of ?da < month_of ?db)
             else YearFromDay ?da < YearFromDay ?db)"
    unfolding toISOString_form [OF assms(1,2)] toISOString_form [OF assms(3,4)]
    by (rule iso_compare_fields [OF Y M D m24 m24 m60 m60 m60 m60 m1000 m1000])
  also have "\<dots> = (if ?da = ?db
             then (if (a div 3600000) mod 24 = (b div 3600000) mod 24
                               then (if (a div 60000) mod 60 = (b div 60000) mod 60
                                     then (if (a div 1000) mod 60 = (b div 1000) mod 60
                                           then (if a mod 1000 = b mod 1000 then True
                                                 else a mod 1000 < b mod 1000)
                                           else (a div 1000) mod 60 < (b div 1000) mod 60)
                                     else (a div 60000) mod 60 < (b div 60000) mod 60)
                               else (a div 3600000) mod 24 < (b div 3600000) mod 24)
             else ?da < ?db)"
    by (rule date_fields_if [OF ra(1) rb(1)])
  also have "\<dots> = (a \<le> b)"
    by (rule time_fields_if)
  finally show ?thesis .
qed

section \<open>The task store\<close>

text \<open>
  The module-level array \<^verbatim>\<open>tasks\<close>, the file \<^verbatim>\<open>data/tasks.json\<close> (the last snapshot
  written to it) and the messages handed to \<^verbatim>\<open>broadcastToClients\<close>, oldest first. A
  message goes to every client that is open when it is broadcast; the clients themselves
  are not modelled. The tasks of the model are objects, as every task the server creates
  is one. Each handler runs from start to end on the state it is given: requests are not
  interleaved.
\<close>

record event =
  ev_type :: string
  ev_task :: obj
  ev_timestamp :: "json option"

record state =
  tasks :: "obj list"
  disk :: "obj list"
  events :: "event list"

text \<open>
  What a handler answers: a status code and a JSON body (\<open>Response\<close>); or a status code
  and a JSON array as body of which the model has the elements and not their order
  (\<open>Permuted\<close>, the elements in some arrangement); or nothing the model can tell
  (\<open>NotModelled\<close>), where the answer depends on a conversion that the model does not
  describe.
\<close>

datatype response = Response nat "json option" | Permuted nat "json list" | NotModelled

fun status_code :: "response \<Rightarrow> nat option" where
  "status_code (Response c b) = Some c"
| "status_code (Permuted c xs) = Some c"
| "status_code NotModelled = None"

definition error_body :: "string \<Rightarrow> json option" where
  "error_body msg = Some (JObj (fmap_of_list [(''error'', JStr msg)]))"

text \<open>The \<^verbatim>\<open>catch\<close> block of every handler.\<close>

definition internal_error :: response where
  "internal_error = Response 500 (error_body ''Internal server error'')"

definition not_found :: response where
  "not_found = Response 404 (error_body ''Task not found'')"

text \<open>
  \<^verbatim>\<open>saveTasks\<close>: the write succeeds or throws, as the file system decides (\<open>writable\<close>).
\<close>

definition saveTasks :: "bool \<Rightarrow> state \<Rightarrow> error + state" where
  "saveTasks writable st = (if writable then Inr (st\<lparr>disk := tasks st\<rparr>) else Inl IOError)"

definition broadcastToClients :: "event \<Rightarrow> state \<Rightarrow> state" where
  "broadcastToClients message st = st\<lparr>events := events st @ [message]\<rparr>"

text \<open>\<^verbatim>\<open>t => t.id === req.params.id\<close>, and \<^verbatim>\<open>findIndex\<close> with \<open>None\<close> for \<open>-1\<close>.\<close>

definition has_id :: "string \<Rightarrow> obj \<Rightarrow> bool" where
  "has_id i t = (fmlookup t ''id'' = Some (JStr i))"

fun findIndex :: "('a \<Rightarrow> bool) \<Rightarrow> 'a list \<Rightarrow> nat option" where
  "findIndex P [] = None"
| "findIndex P (x # xs) = (if P x then Some 0 else map_option Suc (findIndex P xs))"

text \<open>
  The object literal of the create handler and of the bulk handler (the two are the same
  text, on \<^verbatim>\<open>req.body\<close> and on \<^verbatim>\<open>taskData\<close>).
\<close>

definition newTask :: "string \<Rightarrow> string \<Rightarrow> json \<Rightarrow> string \<Rightarrow> obj" where
  "newTask uuid now data title =
     fmap_of_list
       [(''id'', JStr uuid),
        (''title'', JStr (trim title)),
        (''description'', or_default (field data ''description'') (JStr [])),
        (''status'', or_default (field data ''status'') (JStr ''backlog'')),
        (''priority'', or_default (field data ''priority'') (JStr ''medium'')),
        (''tags'', or_default (field data ''tags'') (JArr [])),
        (''assignee'', or_default (field data ''assignee'') (JStr [])),
        (''created_at'', JStr now),
        (''updated_at'', JStr now),
        (''order'', (case field data ''order'' of Some v \<Rightarrow> v | None \<Rightarrow> JNum 0))]"

subsection \<open>Create\<close>

definition createTask :: "int \<Rightarrow> string \<Rightarrow> bool \<Rightarrow> json \<Rightarrow> state \<Rightarrow> response \<times> state" where
  "createTask now uuid writable body st =
     (case validateTaskInput body False of
        Inl e \<Rightarrow> (internal_error, st)
      | Inr errors \<Rightarrow>
          if length errors > 0 then (Response 400 (error_body (join ''; '' errors)), st)
          else
            (case field body ''title'' of
               Some (JStr title) \<Rightarrow>
                 (let t = newTask uuid (toISOString now) body title;
                      st1 = st\<lparr>tasks := tasks st @ [t]\<rparr>
                  in (case saveTasks writable st1 of
                        Inl e \<Rightarrow> (internal_error, st1)
                      | Inr st2 \<Rightarrow>
                          (Response 201 (Some (JObj t)),
                           broadcastToClients
                             \<lparr>ev_type = ''task_created'', ev_task = t,
                              ev_timestamp = Some (JStr (toISOString now))\<rparr> st2)))
             | _ \<Rightarrow> (internal_error, st)))"

subsection \<open>Update\<close>

text \<open>
  \<^verbatim>\<open>...req.body\<close> inside an object literal: the own properties of an object, the
  elements of an array under their indices, the characters of a string under theirs,
  nothing for any other value.
\<close>

fun spread :: "json \<Rightarrow> obj" where
  "spread (JObj m) = m"
| "spread (JArr xs) = fmap_of_list (zip (map show_nat [0..<length xs]) xs)"
| "spread (JStr s) = fmap_of_list (zip (map show_nat [0..<length s]) (map (\<lambda>c. JStr [c]) s))"
| "spread _ = fmempty"

text \<open>
  The object literal of the update handler and the assignment of the trimmed title that
  follows it. The validator has passed when this runs, so a title that is present is a
  string; \<^verbatim>\<open>trim\<close> on anything else would throw.
\<close>

definition updatedTask :: "string \<Rightarrow> obj \<Rightarrow> json \<Rightarrow> error + obj" where
  "updatedTask now old body =
     (let merged =
            put ''updated_at'' (Some (JStr now))
              (put ''created_at'' (fmlookup old ''created_at'')
                 (put ''id'' (fmlookup old ''id'') (old ++\<^sub>f spread body)))
      in (case field body ''title'' of
            None \<Rightarrow> Inr merged
          | Some (JStr title) \<Rightarrow> Inr (fmupd ''title'' (JStr (trim title)) merged)
          | Some _ \<Rightarrow> Inl TypeError))"

definition updateTask :: "int \<Rightarrow> bool \<Rightarrow> string \<Rightarrow> json \<Rightarrow> state \<Rightarrow> response \<times> state" where
  "updateTask now writable i body st =
     (case findIndex (has_id i) (tasks st) of
        None \<Rightarrow> (not_found, st)
      | Some taskIndex \<Rightarrow>
          (case validateTaskInput body True of
             Inl e \<Rightarrow> (internal_error, st)
           | Inr errors \<Rightarrow>
               if length errors > 0 then (Response 400 (error_body (join ''; '' errors)), st)
               else
                 (case updatedTask (toISOString now) (tasks st ! taskIndex) body of
                    Inl e \<Rightarrow> (internal_error, st)
                  | Inr t \<Rightarrow>
                      (let st1 = st\<lparr>tasks := (tasks st)[taskIndex := t]\<rparr>
                       in (case saveTasks writable st1 of
                             Inl e \<Rightarrow> (internal_error, st1)
                           | Inr st2 \<Rightarrow>
                               (Response 200 (Some (JObj t)),
                                broadcastToClients
                                  \<lparr>ev_type = ''task_updated'', ev_task = t,
                                   ev_timestamp = fmlookup t ''updated_at''\<rparr> st2))))))"

subsection \<open>Delete\<close>

definition deleteTask :: "int \<Rightarrow> bool \<Rightarrow> string \<Rightarrow> state \<Rightarrow> response \<times> state" where
  "deleteTask now writable i st =
     (case findIndex (has_id i) (tasks st) of
        None \<Rightarrow> (not_found, st)
      | Some taskIndex \<Rightarrow>
          (let deletedTask = tasks st ! taskIndex;
               st1 = st\<lparr>tasks := take taskIndex (tasks st) @ drop (Suc taskIndex) (tasks st)\<rparr>
           in (case saveTasks writable st1 of
                 Inl e \<Rightarrow> (internal_error, st1)
               | Inr st2 \<Rightarrow>
                   (Response 204 None,
                    broadcastToClients
                      \<lparr>ev_type = ''task_deleted'', ev_task = deletedTask,
                       ev_timestamp = Some (JStr (toISOString now))\<rparr> st2))))"

subsection \<open>Move\<close>

text \<open>The object literal of the move handler.\<close>

definition movedTask :: "string \<Rightarrow> obj \<Rightarrow> json \<Rightarrow> obj" where
  "movedTask now old body =
     put ''updated_at'' (Some (JStr now))
       (put ''order'' (if_defined (field body ''order'') (fmlookup old ''order''))
          (put ''status'' (field body ''status'') old))"

definition moveTask :: "int \<Rightarrow> bool \<Rightarrow> string \<Rightarrow> json \<Rightarrow> state \<Rightarrow> response \<times> state" where
  "moveTask now writable i body st =
     (case findIndex (has_id i) (tasks st) of
        None \<Rightarrow> (not_found, st)
      | Some taskIndex \<Rightarrow>
          if is_nullish body then (internal_error, st)
          else if \<not> truthy (field body ''status'') then
            (Response 400 (error_body ''Status is required''), st)
          else if \<not> member_of VALID_STATUSES (field body ''status'') then
            (Response 400 (error_body status_message), st)
          else
            (let t = movedTask (toISOString now) (tasks st ! taskIndex) body;
                 st1 = st\<lparr>tasks := (tasks st)[taskIndex := t]\<rparr>
             in (case saveTasks writable st1 of
                   Inl e \<Rightarrow> (internal_error, st1)
                 | Inr st2 \<Rightarrow>
                     (Response 200 (Some (JObj t)),
                      broadcastToClients
                        \<lparr>ev_type = ''task_moved'', ev_task = t,
                         ev_timestamp = fmlookup t ''updated_at''\<rparr> st2))))"

subsection \<open>Bulk create\<close>

text \<open>
  The \<^verbatim>\<open>for\<close> loop of the bulk handler, on the elements from index \<open>i\<close> on. Each element
  reads the clock and draws an identifier of its own (\<open>clock i\<close>, \<open>uuids i\<close>). The loop
  pushes onto the module's array as it goes, so an exception leaves what was pushed
  before it: the result carries the array as the loop left it.
\<close>

fun bulk_loop ::
  "(nat \<Rightarrow> int) \<Rightarrow> (nat \<Rightarrow> string) \<Rightarrow> nat \<Rightarrow> json list \<Rightarrow> obj list \<Rightarrow> obj list \<Rightarrow> string list
     \<Rightarrow> error option \<times> obj list \<times> obj list \<times> string list" where
  "bulk_loop clock uuids i [] ts createdTasks errors = (None, ts, createdTasks, errors)"
| "bulk_loop clock uuids i (taskData # rest) ts createdTasks errors =
     (case validateTaskInput taskData False of
        Inl e \<Rightarrow> (Some e, ts, createdTasks, errors)
      | Inr validationErrors \<Rightarrow>
          if length validationErrors > 0 then
            bulk_loop clock uuids (Suc i) rest ts createdTasks
              (errors @ [''Task '' @ show_nat i @ '': '' @ join ''; '' validationErrors])
          else
            (case field taskData ''title'' of
               Some (JStr title) \<Rightarrow>
                 (let t = newTask (uuids i) (toISOString (clock i)) taskData title
                  in bulk_loop clock uuids (Suc i) rest (ts @ [t]) (createdTasks @ [t]) errors)
             | _ \<Rightarrow> (Some TypeError, ts, createdTasks, errors)))"

text \<open>\<^verbatim>\<open>createdTasks.forEach(task => broadcastToClients(...))\<close>.\<close>

fun broadcast_all :: "event list \<Rightarrow> state \<Rightarrow> state" where
  "broadcast_all [] st = st"
| "broadcast_all (m # ms) st = broadcast_all ms (broadcastToClients m st)"

definition created_event :: "obj \<Rightarrow> event" where
  "created_event t =
     \<lparr>ev_type = ''task_created'', ev_task = t, ev_timestamp = fmlookup t ''created_at''\<rparr>"

definition bulk_body :: "obj list \<Rightarrow> string list \<Rightarrow> json" where
  "bulk_body createdTasks errors =
     JObj (if length errors > 0
           then fmap_of_list [(''tasks'', JArr (map JObj createdTasks)),
                              (''errors'', JArr (map JStr errors))]
           else fmap_of_list [(''tasks'', JArr (map JObj createdTasks))])"

definition bulk_usage :: string where
  "bulk_usage = ''Body must contain a '' @ [CHR 0x22] @ ''tasks'' @ [CHR 0x22] @ '' array''"

definition bulkCreate ::
  "(nat \<Rightarrow> int) \<Rightarrow> (nat \<Rightarrow> string) \<Rightarrow> bool \<Rightarrow> json \<Rightarrow> state \<Rightarrow> response \<times> state" where
  "bulkCreate clock uuids writable body st =
     (if is_nullish body then (internal_error, st)
      else
        (case field body ''tasks'' of
           Some (JArr elems) \<Rightarrow>
             (case bulk_loop clock uuids 0 elems (tasks st) [] [] of
                (Some e, ts, createdTasks, errors) \<Rightarrow> (internal_error, st\<lparr>tasks := ts\<rparr>)
              | (None, ts, createdTasks, errors) \<Rightarrow>
                  (let st1 = st\<lparr>tasks := ts\<rparr>
                   in if length errors > 0 \<and> length createdTasks = 0 then
                        (Response 400 (error_body (join ''; '' errors)), st1)
                      else
                        (case saveTasks writable st1 of
                           Inl e \<Rightarrow> (internal_error, st1)
                         | Inr st2 \<Rightarrow>
                             (Response 201 (Some (bulk_body createdTasks errors)),
                              broadcast_all (map created_event createdTasks) st2))))
         | _ \<Rightarrow> (Response 400 (error_body bulk_usage), st)))"

subsection \<open>Clear done\<close>

definition is_done :: "obj \<Rightarrow> bool" where
  "is_done t = (fmlookup t ''status'' = Some (JStr ''done''))"

text \<open>Each deletion event reads the clock again: \<open>clock k\<close> for the \<open>k\<close>-th event.\<close>

definition deleted_events :: "(nat \<Rightarrow> int) \<Rightarrow> obj list \<Rightarrow> event list" where
  "deleted_events clock deletedTasks =
     map (\<lambda>(k, t). \<lparr>ev_type = ''task_deleted'', ev_task = t,
                     ev_timestamp = Some (JStr (toISOString (clock k)))\<rparr>)
         (zip [0..<length deletedTasks] deletedTasks)"

definition clearDone :: "(nat \<Rightarrow> int) \<Rightarrow> bool \<Rightarrow> string option \<Rightarrow> state \<Rightarrow> response \<times> state" where
  "clearDone clock writable query_status st =
     (if query_status \<noteq> Some ''done'' then
        (Response 400 (error_body ''Only status=done is supported for bulk delete''), st)
      else
        (let initialCount = length (tasks st);
             deletedTasks = filter is_done (tasks st);
             st1 = st\<lparr>tasks := filter (\<lambda>t. \<not> is_done t) (tasks st)\<rparr>;
             deletedCount = initialCount - length (tasks st1)
         in (case saveTasks writable st1 of
               Inl e \<Rightarrow> (internal_error, st1)
             | Inr st2 \<Rightarrow>
                 (Response 200
                    (Some (JObj (fmap_of_list [(''deleted'', JNum (of_nat deletedCount))]))),
                  broadcast_all (deleted_events clock deletedTasks) st2))))"

section \<open>The queries\<close>

subsection \<open>Get\<close>

definition getTask :: "string \<Rightarrow> state \<Rightarrow> response \<times> state" where
  "getTask i st =
     (case find (has_id i) (tasks st) of
        None \<Rightarrow> (not_found, st)
      | Some task \<Rightarrow> (Response 200 (Some (JObj task)), st))"

subsection \<open>List\<close>

text \<open>
  The four parameters of the query string that the handler reads, each a text or absent.
  (A parameter given twice, which the framework hands over as an array, is not modelled.)
  \<^verbatim>\<open>if (req.query.status)\<close> tests the text for truth: the empty text is false.
\<close>

record query =
  q_status :: "string option"
  q_priority :: "string option"
  q_assignee :: "string option"
  q_search :: "string option"

fun given :: "string option \<Rightarrow> bool" where
  "given None = False"
| "given (Some s) = (s \<noteq> [])"

text \<open>\<^verbatim>\<open>filtered.filter(task => task.NAME === value)\<close> under its \<^verbatim>\<open>if\<close>.\<close>

definition filter_eq :: "string \<Rightarrow> string option \<Rightarrow> obj list \<Rightarrow> obj list" where
  "filter_eq name param filtered =
     (case param of
        None \<Rightarrow> filtered
      | Some v \<Rightarrow>
          if given param then filter (\<lambda>task. fmlookup task name = Some (JStr v)) filtered
          else filtered)"

text \<open>
  The callback of the search filter. Only a string has \<^verbatim>\<open>toLowerCase\<close>: any other title
  throws, and so does any other description once the title does not match.
\<close>

definition matches_search :: "string \<Rightarrow> obj \<Rightarrow> error + bool" where
  "matches_search searchLower task =
     (case fmlookup task ''title'' of
        Some (JStr title) \<Rightarrow>
          if str_includes (toLowerCase title) searchLower then Inr True
          else
            (case fmlookup task ''description'' of
               Some (JStr description) \<Rightarrow> Inr (str_includes (toLowerCase description) searchLower)
             | _ \<Rightarrow> Inl TypeError)
      | _ \<Rightarrow> Inl TypeError)"

fun filter_search :: "string \<Rightarrow> obj list \<Rightarrow> error + obj list" where
  "filter_search searchLower [] = Inr []"
| "filter_search searchLower (task # rest) =
     (case matches_search searchLower task of
        Inl e \<Rightarrow> Inl e
      | Inr keep \<Rightarrow>
          (case filter_search searchLower rest of
             Inl e \<Rightarrow> Inl e
           | Inr kept \<Rightarrow> Inr (if keep then task # kept else kept)))"

text \<open>
  The comparator handed to \<^verbatim>\<open>sort\<close> subtracts what it finds under the status in
  \<^verbatim>\<open>statusOrder\<close> and then the two \<^verbatim>\<open>order\<close> values, whatever these are. A number of the
  comparator is a finite value (\<open>Num\<close>), \<open>NaN\<close>, or a number or NaN that the model does
  not compute (\<open>Uncomputed\<close>). Of a difference only the sign matters to the sort, and
  the difference of two finite doubles has the sign of the exact difference.
\<close>

datatype number = Num rat | NaN | Uncomputed

definition statusOrder :: "(string \<times> rat) list" where
  "statusOrder = [(''backlog'', 0), (''todo'', 1), (''in_progress'', 2), (''review'', 3), (''done'', 4)]"

lemma statusOrder_positions: "statusOrder = zip VALID_STATUSES [0, 1, 2, 3, 4]"
  by (simp add: statusOrder_def VALID_STATUSES_def)

text \<open>
  \<^verbatim>\<open>statusOrder[task.status]\<close> as an operand of \<^verbatim>\<open>-\<close>. A text of the table gives its
  rank. Any other text names nothing or a member of \<^verbatim>\<open>Object.prototype\<close>, and
  \<^verbatim>\<open>undefined\<close>, a function and a plain object all convert to NaN; so does the name that
  \<^verbatim>\<open>undefined\<close>, \<^verbatim>\<open>null\<close>, a boolean or a number is turned into. An array or an object
  as status is turned into a property name by its \<^verbatim>\<open>toString\<close>, which the model does
  not describe (\<open>None\<close>).
\<close>

fun status_rank :: "json option \<Rightarrow> number option" where
  "status_rank (Some (JStr s)) = Some (case map_of statusOrder s of Some r \<Rightarrow> Num r | None \<Rightarrow> NaN)"
| "status_rank (Some (JArr xs)) = None"
| "status_rank (Some (JObj m)) = None"
| "status_rank _ = Some NaN"

text \<open>
  \<^verbatim>\<open>ToNumber\<close> on an \<^verbatim>\<open>order\<close>. A text that has a character which no numeric literal
  has (the literals are made of white space, digits, signs, the point, the exponent
  mark, the prefixes \<^verbatim>\<open>0x\<close>, \<^verbatim>\<open>0o\<close>, \<^verbatim>\<open>0b\<close>, the hexadecimal digits and \<^verbatim>\<open>Infinity\<close>) converts
  to NaN; the value of any other text is not computed. The conversion of an array or of
  an object calls methods of the value and can throw; the model does not describe it
  (\<open>None\<close>).
\<close>

definition literal_char :: "char \<Rightarrow> bool" where
  "literal_char c = (is_ws c \<or> c \<in> set ''0123456789+-.abcdefABCDEFxXoOInity'')"

fun to_number :: "json option \<Rightarrow> number option" where
  "to_number None = Some NaN"
| "to_number (Some JNull) = Some (Num 0)"
| "to_number (Some (JBool b)) = Some (Num (if b then 1 else 0))"
| "to_number (Some (JNum n)) = Some (Num n)"
| "to_number (Some (JStr s)) = Some (if list_all literal_char s then Uncomputed else NaN)"
| "to_number (Some (JArr xs)) = None"
| "to_number (Some (JObj m)) = None"

fun minus_number :: "number \<Rightarrow> number \<Rightarrow> number" where
  "minus_number (Num a) (Num b) = Num (a - b)"
| "minus_number NaN y = NaN"
| "minus_number x NaN = NaN"
| "minus_number x y = Uncomputed"

text \<open>
  The comparator itself. \<^verbatim>\<open>statusDiff !== 0\<close> holds of NaN. The two \<^verbatim>\<open>order\<close> values are
  converted only when the status difference is 0.
\<close>

definition compare_tasks :: "obj \<Rightarrow> obj \<Rightarrow> number option" where
  "compare_tasks a b =
     (case (status_rank (fmlookup a ''status''), status_rank (fmlookup b ''status'')) of
        (Some ra, Some rb) \<Rightarrow>
          (let statusDiff = minus_number ra rb
           in if statusDiff \<noteq> Num 0 then Some statusDiff
              else
                (case (to_number (fmlookup a ''order''), to_number (fmlookup b ''order'')) of
                   (Some oa, Some ob) \<Rightarrow> Some (minus_number oa ob)
                 | _ \<Rightarrow> None))
      | _ \<Rightarrow> None)"

text \<open>
  \<^verbatim>\<open>Array.prototype.sort\<close> sees the comparator through the operation SortCompare of the
  language, which returns the comparator's number and +0 for NaN. \<open>None\<close> where the
  model does not have the number.
\<close>

fun sort_value :: "number \<Rightarrow> rat option" where
  "sort_value (Num v) = Some v"
| "sort_value NaN = Some 0"
| "sort_value Uncomputed = None"

definition sort_compare :: "obj \<Rightarrow> obj \<Rightarrow> rat option" where
  "sort_compare a b = (case compare_tasks a b of Some n \<Rightarrow> sort_value n | None \<Rightarrow> None)"

text \<open>
  The language fixes the result of \<^verbatim>\<open>sort\<close> when the comparison is consistent on the
  elements: every element equal to itself, equality symmetric and transitive, less and
  greater transitive. The result is then the one stable arrangement in the order of the
  comparison, whatever the engine's algorithm; insertion from the right computes it.
  The language does not call a comparator consistent that returns NaN, and leaves the
  order to the engine then; but the engine has the comparator through SortCompare alone,
  so that it arranges the elements as it does for the comparison with 0 in place of NaN.
  The consistency is therefore asked of the values of SortCompare.
\<close>

definition consistent_comparison :: "obj list \<Rightarrow> bool" where
  "consistent_comparison xs =
     list_all (\<lambda>a. list_all (\<lambda>b. list_all (\<lambda>c.
       (case (sort_compare a a, sort_compare a b, sort_compare b a, sort_compare b c,
              sort_compare a c) of
          (Some aa, Some ab, Some ba, Some bc, Some ac) \<Rightarrow>
            aa = 0 \<and> (ab = 0 \<longrightarrow> ba = 0) \<and> (ab = 0 \<and> bc = 0 \<longrightarrow> ac = 0)
            \<and> (ab < 0 \<and> bc < 0 \<longrightarrow> ac < 0) \<and> (0 < ab \<and> 0 < bc \<longrightarrow> 0 < ac)
        | _ \<Rightarrow> False)) xs) xs) xs"

fun insert_by :: "('a \<Rightarrow> 'a \<Rightarrow> rat option) \<Rightarrow> 'a \<Rightarrow> 'a list \<Rightarrow> 'a list" where
  "insert_by cmp x [] = [x]"
| "insert_by cmp x (y # ys) =
     (case cmp x y of
        Some v \<Rightarrow> if v \<le> 0 then x # y # ys else y # insert_by cmp x ys
      | None \<Rightarrow> x # y # ys)"

text \<open>
  What the model knows of \<^verbatim>\<open>filtered.sort(...)\<close>. An array of at most one element is
  returned as it is, without a call of the comparator. With two elements or more: the
  sorted array when the comparison is consistent; the same elements in an order that the
  model does not determine (\<open>Undetermined\<close>) when no call of the comparator can throw
  and the comparison is not consistent, where the order is the engine's choice, or not
  computed; nothing (\<open>Unmodelled\<close>) when the model does not describe some call of the
  comparator.
\<close>

datatype sorting = Sorted "obj list" | Undetermined | Unmodelled

definition sort_tasks :: "obj list \<Rightarrow> sorting" where
  "sort_tasks xs =
     (if length xs \<le> 1 then Sorted xs
      else if \<not> list_all (\<lambda>a. list_all (\<lambda>b. compare_tasks a b \<noteq> None) xs) xs then Unmodelled
      else if consistent_comparison xs then Sorted (foldr (insert_by sort_compare) xs [])
      else Undetermined)"

definition listTasks :: "query \<Rightarrow> state \<Rightarrow> response \<times> state" where
  "listTasks q st =
     (let by_status = filter_eq ''status'' (q_status q) (tasks st);
          by_priority = filter_eq ''priority'' (q_priority q) by_status;
          by_assignee = filter_eq ''assignee'' (q_assignee q) by_priority;
          by_search =
            (case q_search q of
               None \<Rightarrow> Inr by_assignee
             | Some search \<Rightarrow>
                 if given (q_search q) then filter_search (toLowerCase search) by_assignee
                 else Inr by_assignee)
      in (case by_search of
            Inl e \<Rightarrow> (internal_error, st)
          | Inr filtered \<Rightarrow>
              (case sort_tasks filtered of
                 Sorted ordered \<Rightarrow> (Response 200 (Some (JArr (map JObj ordered))), st)
               | Undetermined \<Rightarrow> (Permuted 200 (map JObj filtered), st)
               | Unmodelled \<Rightarrow> (NotModelled, st))))"

text \<open>
  The keys of the board's order, for the tasks that have them: the rank of a status of
  the table, and an \<^verbatim>\<open>order\<close> that is a number.
\<close>

definition rank_of :: "obj \<Rightarrow> rat option" where
  "rank_of task =
     (case fmlookup task ''status'' of
        Some (JStr s) \<Rightarrow> map_of statusOrder s
      | _ \<Rightarrow> None)"

definition order_of :: "obj \<Rightarrow> rat option" where
  "order_of task =
     (case fmlookup task ''order'' of
        Some (JNum n) \<Rightarrow> Some n
      | _ \<Rightarrow> None)"

subsection \<open>Stats\<close>

text \<open>
  A table of counters; \<open>None\<close> as a counter is NaN, which the response writes as \<^verbatim>\<open>null\<close>.
  \<^verbatim>\<open>table[key]++\<close> with a string key: a counter of the table goes up by one; any other
  name gets NaN under it (and \<^verbatim>\<open>__proto__\<close> cannot be set to it). A key that is not a
  string would be converted to one, which the model does not describe (outer \<open>None\<close>).
\<close>

type_synonym counters = "(string, nat option) fmap"

definition bump :: "json option \<Rightarrow> counters \<Rightarrow> counters option" where
  "bump key table =
     (case key of
        Some (JStr s) \<Rightarrow>
          Some (if s = ''__proto__'' then table
                else fmupd s (case fmlookup table s of Some (Some n) \<Rightarrow> Some (Suc n) | _ \<Rightarrow> None)
                       table)
      | _ \<Rightarrow> None)"

text \<open>
  \<^verbatim>\<open>task.updated_at >= oneDayAgo\<close>, where \<open>oneDayAgo\<close> is the text of a date. Two strings
  are compared as strings. Against \<^verbatim>\<open>undefined\<close>, \<^verbatim>\<open>null\<close>, a boolean or a number the
  text is converted to a number, which it is not, and the comparison is false. An array or
  an object would first be converted to a string (not modelled).
\<close>

fun ge_text :: "json option \<Rightarrow> string \<Rightarrow> bool option" where
  "ge_text (Some (JStr u)) s = Some (str_le s u)"
| "ge_text (Some (JArr xs)) s = None"
| "ge_text (Some (JObj m)) s = None"
| "ge_text _ s = Some False"

record tally =
  byStatus :: counters
  byPriority :: counters
  recentlyCompleted :: nat

text \<open>The body of \<^verbatim>\<open>tasks.forEach\<close> in the stats handler.\<close>

definition stats_step :: "string \<Rightarrow> obj \<Rightarrow> tally \<Rightarrow> tally option" where
  "stats_step oneDayAgo task acc =
     (case bump (fmlookup task ''status'') (byStatus acc) of
        None \<Rightarrow> None
      | Some bs \<Rightarrow>
          (case bump (fmlookup task ''priority'') (byPriority acc) of
             None \<Rightarrow> None
           | Some bp \<Rightarrow>
               if fmlookup task ''status'' = Some (JStr ''done'') then
                 (case ge_text (fmlookup task ''updated_at'') oneDayAgo of
                    None \<Rightarrow> None
                  | Some recent \<Rightarrow>
                      Some \<lparr>byStatus = bs, byPriority = bp,
                            recentlyCompleted =
                              (if recent then Suc (recentlyCompleted acc)
                               else recentlyCompleted acc)\<rparr>)
               else Some \<lparr>byStatus = bs, byPriority = bp,
                          recentlyCompleted = recentlyCompleted acc\<rparr>))"

fun stats_loop :: "string \<Rightarrow> obj list \<Rightarrow> tally \<Rightarrow> tally option" where
  "stats_loop oneDayAgo [] acc = Some acc"
| "stats_loop oneDayAgo (task # rest) acc =
     (case stats_step oneDayAgo task acc of
        None \<Rightarrow> None
      | Some acc' \<Rightarrow> stats_loop oneDayAgo rest acc')"

definition zero_counters :: "string list \<Rightarrow> counters" where
  "zero_counters names = fmap_of_list (map (\<lambda>n. (n, Some 0)) names)"

fun counter_json :: "nat option \<Rightarrow> json" where
  "counter_json (Some n) = JNum (of_nat n)"
| "counter_json None = JNull"

definition stats_body :: "nat \<Rightarrow> tally \<Rightarrow> json" where
  "stats_body len acc =
     JObj (fmap_of_list
       [(''total'', JNum (of_nat len)),
        (''byStatus'', JObj (fmmap counter_json (byStatus acc))),
        (''byPriority'', JObj (fmmap counter_json (byPriority acc))),
        (''recentlyCompleted'', JNum (of_nat (recentlyCompleted acc)))])"

definition getStats :: "int \<Rightarrow> state \<Rightarrow> response \<times> state" where
  "getStats now st =
     (let oneDayAgo = toISOString (now - 24 * 60 * 60 * 1000);
          start = \<lparr>byStatus = zero_counters VALID_STATUSES,
                   byPriority = zero_counters VALID_PRIORITIES,
                   recentlyCompleted = 0\<rparr>
      in (case stats_loop oneDayAgo (tasks st) start of
            None \<Rightarrow> (NotModelled, st)
          | Some acc \<Rightarrow> (Response 200 (Some (stats_body (length (tasks st)) acc)), st)))"

section \<open>The validator throws on an ill-typed title or tags\<close>

lemma title_empty_check_throws:
  "\<not> is_string v \<Longrightarrow> title_empty_check (Some v) = Inl TypeError"
  by (cases v) simp_all

lemma tags_every_check_throws:
  "\<not> is_array v \<Longrightarrow> tags_every_check (Some v) = Inl TypeError"
  by (cases v) simp_all

lemma title_empty_check_Inl: "title_empty_check x = Inl e \<Longrightarrow> e = TypeError"
  by (cases x rule: title_empty_check.cases) simp_all

lemma tags_every_check_Inl: "tags_every_check x = Inl e \<Longrightarrow> e = TypeError"
  by (cases x rule: tags_every_check.cases) simp_all

lemma validateTaskInput_Inl: "validateTaskInput data u = Inl e \<Longrightarrow> e = TypeError"
  unfolding validateTaskInput_def Let_def
  by (cases "title_empty_check (field data ''title'')";
      cases "tags_every_check (field data ''tags'')")
     (auto dest: title_empty_check_Inl tags_every_check_Inl split: if_splits)

text \<open>
  C2. The claim is that the validator always returns the list of violations, also for a
  title that is not text and for tags that are not a sequence. The code pushes
  \<^verbatim>\<open>'Title must be a string'\<close> (or \<^verbatim>\<open>'Tags must be an array'\<close>) and then, in the very next
  test, calls \<^verbatim>\<open>data.title.trim()\<close> (or \<^verbatim>\<open>data.tags.every(...)\<close>) on the same value,
  which throws: whenever the title is present and not a string, or the tags are present
  and not an array, the validator returns no list at all.
\<close>

theorem validator_throws_on_ill_typed_field:
  "(field data ''title'' = Some v \<and> \<not> is_string v) \<or> (field data ''tags'' = Some v \<and> \<not> is_array v)
     \<Longrightarrow> validateTaskInput data isUpdate = Inl TypeError"
proof -
  assume h: "(field data ''title'' = Some v \<and> \<not> is_string v)
               \<or> (field data ''tags'' = Some v \<and> \<not> is_array v)"
  have "\<exists>e. validateTaskInput data isUpdate = Inl e"
    using h unfolding validateTaskInput_def Let_def
    by (cases "title_empty_check (field data ''title'')")
       (auto simp: title_empty_check_throws tags_every_check_throws)
  then show ?thesis using validateTaskInput_Inl by blast
qed

theorem validator_throws_witness:
  "validateTaskInput (JObj (fmap_of_list [(''title'', JNum 123)])) False = Inl TypeError
   \<and> validateTaskInput
         (JObj (fmap_of_list [(''title'', JStr ''A''), (''tags'', JStr ''urgent'')])) False
       = Inl TypeError"
  using validator_throws_on_ill_typed_field
          [of "JObj (fmap_of_list [(''title'', JNum 123)])" "JNum 123" False]
        validator_throws_on_ill_typed_field
          [of "JObj (fmap_of_list [(''title'', JStr ''A''), (''tags'', JStr ''urgent'')])"
              "JStr ''urgent''" False]
  by (simp add: fmlookup_of_list)

section \<open>A rejected request changes nothing\<close>

text \<open>
  \<^verbatim>\<open>data.status !== undefined && !VALID_STATUSES.includes(data.status)\<close>: a value is
  supplied and is outside the enumeration.
\<close>

definition outside :: "string list \<Rightarrow> json option \<Rightarrow> bool" where
  "outside enumeration x = (x \<noteq> None \<and> \<not> member_of enumeration x)"

lemma validate_reports_enums:
  assumes "outside VALID_STATUSES (field data ''status'')
             \<or> outside VALID_PRIORITIES (field data ''priority'')"
  shows "validateTaskInput data u \<noteq> Inr []"
  using assms unfolding validateTaskInput_def Let_def outside_def
  by (auto split: sum.splits)

lemma createTask_rejected:
  "status_code (fst (createTask now uuid w body st)) \<in> {Some 400, Some 404}
     \<Longrightarrow> snd (createTask now uuid w body st) = st"
  by (auto simp: createTask_def Let_def saveTasks_def internal_error_def
      split: sum.splits if_splits option.splits json.splits)

lemma updateTask_rejected:
  "status_code (fst (updateTask now w i body st)) \<in> {Some 400, Some 404}
     \<Longrightarrow> snd (updateTask now w i body st) = st"
  by (auto simp: updateTask_def Let_def saveTasks_def internal_error_def
      split: sum.splits if_splits option.splits)

lemma moveTask_rejected:
  "status_code (fst (moveTask now w i body st)) \<in> {Some 400, Some 404}
     \<Longrightarrow> snd (moveTask now w i body st) = st"
  by (auto simp: moveTask_def Let_def saveTasks_def internal_error_def
      split: sum.splits if_splits option.splits)

lemma createTask_bad_enum:
  assumes "outside VALID_STATUSES (field body ''status'')
             \<or> outside VALID_PRIORITIES (field body ''priority'')"
  shows "status_code (fst (createTask now uuid w body st)) \<in> {Some 400, Some 500}
         \<and> snd (createTask now uuid w body st) = st"
  using validate_reports_enums [OF assms, of False]
  by (auto simp: createTask_def internal_error_def split: sum.splits)

lemma updateTask_bad_enum:
  assumes "outside VALID_STATUSES (field body ''status'')
             \<or> outside VALID_PRIORITIES (field body ''priority'')"
  shows "status_code (fst (updateTask now w i body st)) \<in> {Some 400, Some 404, Some 500}
         \<and> snd (updateTask now w i body st) = st"
  using validate_reports_enums [OF assms, of True]
  by (auto simp: updateTask_def internal_error_def not_found_def split: sum.splits option.splits)

lemma moveTask_bad_enum:
  assumes "outside VALID_STATUSES (field body ''status'')"
  shows "status_code (fst (moveTask now w i body st)) \<in> {Some 400, Some 404}
         \<and> snd (moveTask now w i body st) = st"
  using assms
  by (auto simp: moveTask_def outside_def not_found_def split: option.splits
      elim: is_nullish.elims)

text \<open>
  C1. When create, update or move answers 400 (a validation error) or 404 (not found), the
  state after the request is the state before it: the same tasks in memory, the same
  snapshot on disk, no event broadcast. A status or a priority outside its enumeration
  always ends this way for create and update (400, or 404 for an unknown id, or 500 when
  the validator throws on another field), and a status outside the enumeration always
  ends in 400 or 404 for move; in each case nothing has changed.
\<close>

theorem rejected_request_changes_nothing:
  "(status_code (fst (createTask now uuid w body st)) \<in> {Some 400, Some 404}
      \<longrightarrow> snd (createTask now uuid w body st) = st)
   \<and> (status_code (fst (updateTask now w i body st)) \<in> {Some 400, Some 404}
      \<longrightarrow> snd (updateTask now w i body st) = st)
   \<and> (status_code (fst (moveTask now w i body st)) \<in> {Some 400, Some 404}
      \<longrightarrow> snd (moveTask now w i body st) = st)
   \<and> (outside VALID_STATUSES (field body ''status'')
        \<or> outside VALID_PRIORITIES (field body ''priority'')
      \<longrightarrow> status_code (fst (createTask now uuid w body st)) \<in> {Some 400, Some 500}
          \<and> snd (createTask now uuid w body st) = st
          \<and> status_code (fst (updateTask now w i body st)) \<in> {Some 400, Some 404, Some 500}
          \<and> snd (updateTask now w i body st) = st)
   \<and> (outside VALID_STATUSES (field body ''status'')
      \<longrightarrow> status_code (fst (moveTask now w i body st)) \<in> {Some 400, Some 404}
          \<and> snd (moveTask now w i body st) = st)"
  using createTask_rejected [of now uuid w body st] updateTask_rejected [of now w i body st]
    moveTask_rejected [of now w i body st] createTask_bad_enum [of body now uuid w st]
    updateTask_bad_enum [of body now w i st] moveTask_bad_enum [of body now w i st]
  by blast

text \<open>A store with one task, for the examples.\<close>

definition demo_task :: obj where
  "demo_task =
     fmap_of_list
       [(''id'', JStr ''t1''), (''title'', JStr ''Write report''), (''description'', JStr []),
        (''status'', JStr ''todo''), (''priority'', JStr ''medium''), (''tags'', JArr []),
        (''assignee'', JStr ''bob''), (''created_at'', JStr ''2026-01-01T00:00:00.000Z''),
        (''updated_at'', JStr ''2026-01-01T00:00:00.000Z''), (''order'', JNum 3)]"

definition demo_store :: state where
  "demo_store = \<lparr>tasks = [demo_task], disk = [demo_task], events = []\<rparr>"

definition bad_status_body :: json where
  "bad_status_body = JObj (fmap_of_list [(''title'', JStr ''A''), (''status'', JStr ''bogus'')])"

lemma findIndex_demo:
  "findIndex (has_id ''t1'') (tasks demo_store) = Some 0"
  "findIndex (has_id ''zz'') (tasks demo_store) = None"
  by (simp_all add: demo_store_def demo_task_def has_id_def fmlookup_of_list)

theorem rejected_request_witness:
  "status_code (fst (createTask 0 ''u1'' True bad_status_body demo_store)) = Some 400
   \<and> snd (createTask 0 ''u1'' True bad_status_body demo_store) = demo_store
   \<and> status_code (fst (updateTask 0 True ''t1'' bad_status_body demo_store)) = Some 400
   \<and> snd (updateTask 0 True ''t1'' bad_status_body demo_store) = demo_store
   \<and> status_code (fst (updateTask 0 True ''zz'' bad_status_body demo_store)) = Some 404
   \<and> snd (updateTask 0 True ''zz'' bad_status_body demo_store) = demo_store
   \<and> status_code (fst (moveTask 0 True ''t1'' bad_status_body demo_store)) = Some 400
   \<and> snd (moveTask 0 True ''t1'' bad_status_body demo_store) = demo_store"
proof -
  have v: "validateTaskInput bad_status_body False = Inr [status_message]"
          "validateTaskInput bad_status_body True = Inr [status_message]"
    by (simp_all add: validateTaskInput_def bad_status_body_def fmlookup_of_list trim_def
          is_ws_def VALID_STATUSES_def VALID_PRIORITIES_def defined_and_not_def)
  have c: "status_code (fst (createTask 0 ''u1'' True bad_status_body demo_store)) = Some 400"
    by (simp add: createTask_def v)
  have u: "status_code (fst (updateTask 0 True ''t1'' bad_status_body demo_store)) = Some 400"
    by (simp add: updateTask_def v findIndex_demo)
  have n: "status_code (fst (updateTask 0 True ''zz'' bad_status_body demo_store)) = Some 404"
    by (simp add: updateTask_def findIndex_demo not_found_def)
  have m: "status_code (fst (moveTask 0 True ''t1'' bad_status_body demo_store)) = Some 400"
    by (simp add: moveTask_def findIndex_demo bad_status_body_def fmlookup_of_list
          VALID_STATUSES_def)
  show ?thesis
    using rejected_request_changes_nothing
            [of 0 "''u1''" True bad_status_body demo_store "''t1''"]
          rejected_request_changes_nothing
            [of 0 "''u1''" True bad_status_body demo_store "''zz''"]
          c u n m
    by simp
qed

section \<open>Update and move\<close>

lemma findIndex_Some:
  "findIndex P xs = Some k \<Longrightarrow> k < length xs \<and> P (xs ! k)"
  by (induction xs arbitrary: k) (auto split: if_splits)

lemma fmlookup_put [simp]:
  "fmlookup (put k v m) k' = (if k = k' then v else fmlookup m k')"
  by (cases v) (auto simp: put_def)

lemma fmlookup_add_case:
  "fmlookup (m ++\<^sub>f n) x = (case fmlookup n x of Some v \<Rightarrow> Some v | None \<Rightarrow> fmlookup m x)"
  by (cases "fmlookup n x") (auto simp: fmlookup_dom_iff)

lemma updatedTask_identity:
  assumes "updatedTask now old body = Inr t"
  shows "fmlookup t ''id'' = fmlookup old ''id''"
    and "fmlookup t ''created_at'' = fmlookup old ''created_at''"
    and "fmlookup t ''updated_at'' = Some (JStr now)"
  using assms
  by (auto simp: updatedTask_def Let_def split: option.splits json.splits)

lemma updatedTask_copies:
  assumes "updatedTask now old body = Inr t"
    and "key \<notin> {''id'', ''created_at'', ''updated_at'', ''title''}"
  shows "fmlookup t key = (case fmlookup (spread body) key of Some v \<Rightarrow> Some v | None \<Rightarrow> fmlookup old key)"
  using assms
  by (auto simp: updatedTask_def Let_def fmlookup_add_case simp del: fmlookup_add
      split: option.splits json.splits)


lemma movedTask_fields:
  "fmlookup (movedTask now old body) ''id'' = fmlookup old ''id''"
  "fmlookup (movedTask now old body) ''created_at'' = fmlookup old ''created_at''"
  "fmlookup (movedTask now old body) ''updated_at'' = Some (JStr now)"
  "fmlookup (movedTask now old body) ''status'' = field body ''status''"
  "fmlookup (movedTask now old body) ''order'' =
     (case field body ''order'' of Some v \<Rightarrow> Some v | None \<Rightarrow> fmlookup old ''order'')"
  by (simp_all add: movedTask_def if_defined_def)

lemma updateTask_200:
  assumes "status_code (fst (updateTask now w i body st)) = Some 200"
  shows "\<exists>k t. findIndex (has_id i) (tasks st) = Some k
           \<and> validateTaskInput body True = Inr []
           \<and> updatedTask (toISOString now) (tasks st ! k) body = Inr t
           \<and> updateTask now w i body st =
               (Response 200 (Some (JObj t)),
                \<lparr>tasks = (tasks st)[k := t], disk = (tasks st)[k := t],
                 events = events st @ [\<lparr>ev_type = ''task_updated'', ev_task = t,
                                        ev_timestamp = Some (JStr (toISOString now))\<rparr>]\<rparr>)"
  using assms
  by (auto simp: updateTask_def Let_def saveTasks_def internal_error_def not_found_def
        broadcastToClients_def updatedTask_identity
      split: sum.splits if_splits option.splits)

lemma moveTask_200:
  assumes "status_code (fst (moveTask now w i body st)) = Some 200"
  shows "\<exists>k. findIndex (has_id i) (tasks st) = Some k
           \<and> member_of VALID_STATUSES (field body ''status'')
           \<and> moveTask now w i body st =
               (Response 200 (Some (JObj (movedTask (toISOString now) (tasks st ! k) body))),
                \<lparr>tasks = (tasks st)[k := movedTask (toISOString now) (tasks st ! k) body],
                 disk = (tasks st)[k := movedTask (toISOString now) (tasks st ! k) body],
                 events = events st @
                   [\<lparr>ev_type = ''task_moved'',
                     ev_task = movedTask (toISOString now) (tasks st ! k) body,
                     ev_timestamp = Some (JStr (toISOString now))\<rparr>]\<rparr>)"
  using assms
  by (auto simp: moveTask_def Let_def saveTasks_def internal_error_def not_found_def
        broadcastToClients_def movedTask_fields
      split: sum.splits if_splits option.splits)

lemma createTask_201:
  assumes "status_code (fst (createTask now uuid w body st)) = Some 201"
  shows "\<exists>title. validateTaskInput body False = Inr [] \<and> field body ''title'' = Some (JStr title)
           \<and> createTask now uuid w body st =
               (Response 201 (Some (JObj (newTask uuid (toISOString now) body title))),
                \<lparr>tasks = tasks st @ [newTask uuid (toISOString now) body title],
                 disk = tasks st @ [newTask uuid (toISOString now) body title],
                 events = events st @
                   [\<lparr>ev_type = ''task_created'',
                     ev_task = newTask uuid (toISOString now) body title,
                     ev_timestamp = Some (JStr (toISOString now))\<rparr>]\<rparr>)"
  using assms
  by (auto simp: createTask_def Let_def saveTasks_def internal_error_def
        broadcastToClients_def
      split: sum.splits if_splits option.splits json.splits)

lemma title_empty_check_Inr:
  "title_empty_check x = Inr e \<Longrightarrow> x = None \<or> (\<exists>s. x = Some (JStr s))"
  by (cases x rule: title_empty_check.cases) simp_all

lemma validate_types_title:
  assumes "validateTaskInput body u = Inr errs"
  shows "field body ''title'' = None \<or> (\<exists>s. field body ''title'' = Some (JStr s))"
proof -
  from assms obtain e where "title_empty_check (field body ''title'') = Inr e"
    unfolding validateTaskInput_def Let_def
    by (cases "title_empty_check (field body ''title'')") (auto split: if_splits)
  then show ?thesis by (rule title_empty_check_Inr)
qed

lemma validate_requires_title:
  assumes "validateTaskInput body False = Inr []"
  shows "\<exists>s. field body ''title'' = Some (JStr s)"
proof -
  from assms have "truthy (field body ''title'')"
    unfolding validateTaskInput_def Let_def
    by (auto split: if_splits sum.splits)
  then have "field body ''title'' \<noteq> None" by (cases "field body ''title''") simp_all
  with validate_types_title [OF assms] show ?thesis by simp
qed



lemma createTask_accepted:
  assumes "validateTaskInput body False = Inr []"
  shows "\<exists>title. field body ''title'' = Some (JStr title)
           \<and> tasks (snd (createTask now uuid w body st))
               = tasks st @ [newTask uuid (toISOString now) body title]
           \<and> (w \<longrightarrow> fst (createTask now uuid w body st)
                 = Response 201 (Some (JObj (newTask uuid (toISOString now) body title))))"
proof -
  from validate_requires_title [OF assms] obtain title where
    "field body ''title'' = Some (JStr title)" by blast
  with assms show ?thesis
    by (simp add: createTask_def Let_def saveTasks_def broadcastToClients_def)
qed

lemma reads_keep_state:
  "snd (listTasks q st) = st" "snd (getTask i st) = st" "snd (getStats now st) = st"
  by (auto simp: listTasks_def getTask_def getStats_def Let_def
      split: sum.splits option.splits sorting.splits)


text \<open>
  C4. A successful update (answer 200) replaces exactly the task found under the given
  id, and the stored task has the \<^verbatim>\<open>id\<close> and the \<^verbatim>\<open>created_at\<close> it had before, whatever
  the request supplies for them, and the time of the request as \<^verbatim>\<open>updated_at\<close>; the
  answer carries that stored task. The same holds for a successful move. The three read
  operations (list, get, stats) return the state they were given.
\<close>

theorem update_and_move_keep_identity:
  "(status_code (fst (updateTask now w i body st)) = Some 200 \<longrightarrow>
      (\<exists>k. findIndex (has_id i) (tasks st) = Some k \<and> k < length (tasks st)
         \<and> tasks (snd (updateTask now w i body st))
             = (tasks st)[k := tasks (snd (updateTask now w i body st)) ! k]
         \<and> fst (updateTask now w i body st)
             = Response 200 (Some (JObj (tasks (snd (updateTask now w i body st)) ! k)))
         \<and> fmlookup (tasks (snd (updateTask now w i body st)) ! k) ''id''
             = fmlookup (tasks st ! k) ''id''
         \<and> fmlookup (tasks (snd (updateTask now w i body st)) ! k) ''created_at''
             = fmlookup (tasks st ! k) ''created_at''
         \<and> fmlookup (tasks (snd (updateTask now w i body st)) ! k) ''updated_at''
             = Some (JStr (toISOString now))))
   \<and> (status_code (fst (moveTask now w i body st)) = Some 200 \<longrightarrow>
      (\<exists>k. findIndex (has_id i) (tasks st) = Some k \<and> k < length (tasks st)
         \<and> tasks (snd (moveTask now w i body st))
             = (tasks st)[k := tasks (snd (moveTask now w i body st)) ! k]
         \<and> fst (moveTask now w i body st)
             = Response 200 (Some (JObj (tasks (snd (moveTask now w i body st)) ! k)))
         \<and> fmlookup (tasks (snd (moveTask now w i body st)) ! k) ''id''
             = fmlookup (tasks st ! k) ''id''
         \<and> fmlookup (tasks (snd (moveTask now w i body st)) ! k) ''created_at''
             = fmlookup (tasks st ! k) ''created_at''
         \<and> fmlookup (tasks (snd (moveTask now w i body st)) ! k) ''updated_at''
             = Some (JStr (toISOString now))))
   \<and> snd (listTasks q st) = st \<and> snd (getTask i st) = st \<and> snd (getStats now st) = st"
proof (intro conjI impI)
  assume "status_code (fst (updateTask now w i body st)) = Some 200"
  from updateTask_200 [OF this] obtain k t where
    k: "findIndex (has_id i) (tasks st) = Some k"
    and t: "updatedTask (toISOString now) (tasks st ! k) body = Inr t"
    and r: "updateTask now w i body st =
      (Response 200 (Some (JObj t)),
       \<lparr>tasks = (tasks st)[k := t], disk = (tasks st)[k := t],
        events = events st @ [\<lparr>ev_type = ''task_updated'', ev_task = t,
                               ev_timestamp = Some (JStr (toISOString now))\<rparr>]\<rparr>)"
    by blast
  from findIndex_Some [OF k] have lt: "k < length (tasks st)" by simp
  show "\<exists>k. findIndex (has_id i) (tasks st) = Some k \<and> k < length (tasks st)
         \<and> tasks (snd (updateTask now w i body st))
             = (tasks st)[k := tasks (snd (updateTask now w i body st)) ! k]
         \<and> fst (updateTask now w i body st)
             = Response 200 (Some (JObj (tasks (snd (updateTask now w i body st)) ! k)))
         \<and> fmlookup (tasks (snd (updateTask now w i body st)) ! k) ''id''
             = fmlookup (tasks st ! k) ''id''
         \<and> fmlookup (tasks (snd (updateTask now w i body st)) ! k) ''created_at''
             = fmlookup (tasks st ! k) ''created_at''
         \<and> fmlookup (tasks (snd (updateTask now w i body st)) ! k) ''updated_at''
             = Some (JStr (toISOString now))"
    using k lt updatedTask_identity [OF t] by (intro exI [of _ k]) (simp add: r)
next
  assume "status_code (fst (moveTask now w i body st)) = Some 200"
  from moveTask_200 [OF this] obtain k where
    k: "findIndex (has_id i) (tasks st) = Some k"
    and r: "moveTask now w i body st =
               (Response 200 (Some (JObj (movedTask (toISOString now) (tasks st ! k) body))),
                \<lparr>tasks = (tasks st)[k := movedTask (toISOString now) (tasks st ! k) body],
                 disk = (tasks st)[k := movedTask (toISOString now) (tasks st ! k) body],
                 events = events st @
                   [\<lparr>ev_type = ''task_moved'',
                     ev_task = movedTask (toISOString now) (tasks st ! k) body,
                     ev_timestamp = Some (JStr (toISOString now))\<rparr>]\<rparr>)"
    by blast
  from findIndex_Some [OF k] have lt: "k < length (tasks st)" by simp
  show "\<exists>k. findIndex (has_id i) (tasks st) = Some k \<and> k < length (tasks st)
         \<and> tasks (snd (moveTask now w i body st))
             = (tasks st)[k := tasks (snd (moveTask now w i body st)) ! k]
         \<and> fst (moveTask now w i body st)
             = Response 200 (Some (JObj (tasks (snd (moveTask now w i body st)) ! k)))
         \<and> fmlookup (tasks (snd (moveTask now w i body st)) ! k) ''id''
             = fmlookup (tasks st ! k) ''id''
         \<and> fmlookup (tasks (snd (moveTask now w i body st)) ! k) ''created_at''
             = fmlookup (tasks st ! k) ''created_at''
         \<and> fmlookup (tasks (snd (moveTask now w i body st)) ! k) ''updated_at''
             = Some (JStr (toISOString now))"
    using k lt by (intro exI [of _ k]) (simp add: r movedTask_fields)
qed (simp_all add: reads_keep_state)

definition forged_body :: json where
  "forged_body =
     JObj (fmap_of_list
       [(''id'', JStr ''forged''), (''created_at'', JStr ''1999-12-31T00:00:00.000Z''),
        (''title'', JStr ''Write the report'')])"

definition done_body :: json where
  "done_body = JObj (fmap_of_list [(''status'', JStr ''done'')])"

lemma validate_forged: "validateTaskInput forged_body True = Inr []"
  by (simp add: validateTaskInput_def forged_body_def fmlookup_of_list trim_def is_ws_def
        defined_and_not_def)

lemma update_forged_200:
  "status_code (fst (updateTask 1793688660123 True ''t1'' forged_body demo_store)) = Some 200"
  by (simp add: updateTask_def findIndex_demo validate_forged)
     (simp add: updatedTask_def forged_body_def fmlookup_of_list saveTasks_def Let_def)

lemma move_done_200:
  "status_code (fst (moveTask 1793688660123 True ''t1'' done_body demo_store)) = Some 200"
  by (simp add: moveTask_def findIndex_demo done_body_def fmlookup_of_list saveTasks_def
        VALID_STATUSES_def Let_def)

theorem update_and_move_keep_identity_witness:
  "status_code (fst (updateTask 1793688660123 True ''t1'' forged_body demo_store)) = Some 200
   \<and> field forged_body ''id'' = Some (JStr ''forged'')
   \<and> fmlookup (tasks (snd (updateTask 1793688660123 True ''t1'' forged_body demo_store)) ! 0) ''id''
       = Some (JStr ''t1'')
   \<and> fmlookup (tasks (snd (updateTask 1793688660123 True ''t1'' forged_body demo_store)) ! 0)
         ''created_at'' = Some (JStr ''2026-01-01T00:00:00.000Z'')
   \<and> fmlookup (tasks (snd (updateTask 1793688660123 True ''t1'' forged_body demo_store)) ! 0)
         ''updated_at'' = Some (JStr (toISOString 1793688660123))
   \<and> status_code (fst (moveTask 1793688660123 True ''t1'' done_body demo_store)) = Some 200
   \<and> fmlookup (tasks (snd (moveTask 1793688660123 True ''t1'' done_body demo_store)) ! 0) ''id''
       = Some (JStr ''t1'')
   \<and> fmlookup (tasks (snd (moveTask 1793688660123 True ''t1'' done_body demo_store)) ! 0)
         ''updated_at'' = Some (JStr (toISOString 1793688660123))"
  using update_and_move_keep_identity
          [of 1793688660123 True "''t1''" forged_body demo_store
              "\<lparr>q_status = None, q_priority = None, q_assignee = None, q_search = None\<rparr>"]
        update_and_move_keep_identity
          [of 1793688660123 True "''t1''" done_body demo_store
              "\<lparr>q_status = None, q_priority = None, q_assignee = None, q_search = None\<rparr>"]
        update_forged_200 move_done_200 findIndex_demo
  by (simp add: demo_store_def demo_task_def forged_body_def fmlookup_of_list)


subsection \<open>The order of a moved task\<close>

lemma member_of_truthy: "member_of VALID_STATUSES x \<Longrightarrow> truthy x"
proof (cases x)
  case None
  then show "member_of VALID_STATUSES x \<Longrightarrow> truthy x" by simp
next
  case (Some v)
  then show "member_of VALID_STATUSES x \<Longrightarrow> truthy x"
    by (cases v) (auto simp: VALID_STATUSES_def)
qed

lemma field_not_nullish: "field body k = Some v \<Longrightarrow> \<not> is_nullish body"
  by (cases body) simp_all

lemma moveTask_valid:
  assumes "findIndex (has_id i) (tasks st) = Some k"
    and "member_of VALID_STATUSES (field body ''status'')"
  shows "tasks (snd (moveTask now w i body st))
           = (tasks st)[k := movedTask (toISOString now) (tasks st ! k) body]"
    and "w \<Longrightarrow> fst (moveTask now w i body st)
           = Response 200 (Some (JObj (movedTask (toISOString now) (tasks st ! k) body)))"
proof -
  from assms(2) obtain v where "field body ''status'' = Some v"
    by (cases "field body ''status''") simp_all
  then have n: "\<not> is_nullish body" by (rule field_not_nullish)
  show "tasks (snd (moveTask now w i body st))
           = (tasks st)[k := movedTask (toISOString now) (tasks st ! k) body]"
    using assms n member_of_truthy [OF assms(2)]
    by (simp add: moveTask_def Let_def saveTasks_def broadcastToClients_def)
  show "w \<Longrightarrow> fst (moveTask now w i body st)
           = Response 200 (Some (JObj (movedTask (toISOString now) (tasks st ! k) body)))"
    using assms n member_of_truthy [OF assms(2)]
    by (simp add: moveTask_def Let_def saveTasks_def broadcastToClients_def)
qed

text \<open>
  C5. For an existing task and a status of the enumeration, the task stored by move has
  the \<^verbatim>\<open>order\<close> of the request when the request has one (the number 0 included), and the
  \<^verbatim>\<open>order\<close> it had before when the request has none. When the write to disk succeeds
  the answer is 200 with that stored task.
\<close>

theorem move_keeps_or_sets_order:
  assumes "findIndex (has_id i) (tasks st) = Some k"
    and "member_of VALID_STATUSES (field body ''status'')"
  shows "fmlookup (tasks (snd (moveTask now w i body st)) ! k) ''order''
           = (case field body ''order'' of
                None \<Rightarrow> fmlookup (tasks st ! k) ''order''
              | Some v \<Rightarrow> Some v)
         \<and> (w \<longrightarrow> fst (moveTask now w i body st)
                     = Response 200 (Some (JObj (tasks (snd (moveTask now w i body st)) ! k))))"
proof -
  from findIndex_Some [OF assms(1)] have "k < length (tasks st)" by simp
  then show ?thesis
    using moveTask_valid [OF assms, where now = now and w = w]
    by (auto simp: movedTask_fields split: option.splits)
qed

definition zero_order_body :: json where
  "zero_order_body = JObj (fmap_of_list [(''status'', JStr ''done''), (''order'', JNum 0)])"

theorem move_keeps_or_sets_order_witness:
  "field done_body ''order'' = None
   \<and> fmlookup (tasks demo_store ! 0) ''order'' = Some (JNum 3)
   \<and> fmlookup (tasks (snd (moveTask 1793688660123 True ''t1'' done_body demo_store)) ! 0) ''order''
       = Some (JNum 3)
   \<and> field zero_order_body ''order'' = Some (JNum 0)
   \<and> fmlookup (tasks (snd (moveTask 1793688660123 True ''t1'' zero_order_body demo_store)) ! 0)
         ''order'' = Some (JNum 0)"
  using move_keeps_or_sets_order
          [where i = "''t1''" and st = demo_store and k = 0 and body = done_body
             and now = 1793688660123 and w = True]
        move_keeps_or_sets_order
          [where i = "''t1''" and st = demo_store and k = 0 and body = zero_order_body
             and now = 1793688660123 and w = True]
        findIndex_demo
  by (simp add: done_body_def zero_order_body_def fmlookup_of_list VALID_STATUSES_def
        demo_store_def demo_task_def)

subsection \<open>Update merges every supplied key\<close>










section \<open>Create and bulk create\<close>

lemma newTask_fields:
  "fmlookup (newTask uuid now data title) ''id'' = Some (JStr uuid)"
  "fmlookup (newTask uuid now data title) ''created_at'' = Some (JStr now)"
  "fmlookup (newTask uuid now data title) ''updated_at'' = Some (JStr now)"
  "fmlookup (newTask uuid now data title) ''title'' = Some (JStr (trim title))"
  "fmlookup (newTask uuid now data title) ''order''
     = Some (case field data ''order'' of Some v \<Rightarrow> v | None \<Rightarrow> JNum 0)"
  by (simp_all add: newTask_def fmlookup_of_list)

lemma bulk_loop_appends:
  "bulk_loop clock uuids i elems ts created errors = (r, ts', created', errors')
     \<Longrightarrow> \<exists>new. ts' = ts @ new \<and> created' = created @ new
          \<and> (r = None \<longrightarrow>
               (\<forall>j < length elems. validateTaskInput (elems ! j) False = Inr [] \<longrightarrow>
                  (\<exists>title. field (elems ! j) ''title'' = Some (JStr title)
                     \<and> newTask (uuids (i + j)) (toISOString (clock (i + j))) (elems ! j) title
                         \<in> set new)))"
proof (induction elems arbitrary: i ts created errors)
  case Nil
  then show ?case by simp
next
  case (Cons e es)
  show ?case
  proof (cases "validateTaskInput e False")
    case (Inl x)
    with Cons.prems show ?thesis by auto
  next
    case (Inr errs)
    show ?thesis
    proof (cases "errs = []")
      case False
      with Inr Cons.prems have
        "bulk_loop clock uuids (Suc i) es ts created
           (errors @ [''Task '' @ show_nat i @ '': '' @ join ''; '' errs])
         = (r, ts', created', errors')"
        by simp
      from Cons.IH [OF this] obtain new where
        new: "ts' = ts @ new" "created' = created @ new"
        "r = None \<longrightarrow>
          (\<forall>j < length es. validateTaskInput (es ! j) False = Inr [] \<longrightarrow>
             (\<exists>title. field (es ! j) ''title'' = Some (JStr title)
                \<and> newTask (uuids (Suc i + j)) (toISOString (clock (Suc i + j))) (es ! j) title
                    \<in> set new))"
        by blast
      have "r = None \<longrightarrow>
          (\<forall>j < length (e # es). validateTaskInput ((e # es) ! j) False = Inr [] \<longrightarrow>
             (\<exists>title. field ((e # es) ! j) ''title'' = Some (JStr title)
                \<and> newTask (uuids (i + j)) (toISOString (clock (i + j))) ((e # es) ! j) title
                    \<in> set new))"
      proof (intro impI allI)
        fix j
        assume r: "r = None" and j: "j < length (e # es)"
          and v: "validateTaskInput ((e # es) ! j) False = Inr []"
        from v Inr False obtain j' where j': "j = Suc j'" by (cases j) auto
        with new(3) r j v show "\<exists>title. field ((e # es) ! j) ''title'' = Some (JStr title)
                \<and> newTask (uuids (i + j)) (toISOString (clock (i + j))) ((e # es) ! j) title
                    \<in> set new"
          by simp
      qed
      with new show ?thesis by blast
    next
      case True
      show ?thesis
      proof (cases "field e ''title''")
        case None
        with Inr True Cons.prems show ?thesis by auto
      next
        case (Some tv)
        show ?thesis
        proof (cases tv)
          case (JStr title)
          let ?t = "newTask (uuids i) (toISOString (clock i)) e title"
          from Inr True Some JStr Cons.prems have
            "bulk_loop clock uuids (Suc i) es (ts @ [?t]) (created @ [?t]) errors
               = (r, ts', created', errors')"
            by (simp add: Let_def)
          from Cons.IH [OF this] obtain new where
            new: "ts' = (ts @ [?t]) @ new" "created' = (created @ [?t]) @ new"
            "r = None \<longrightarrow>
              (\<forall>j < length es. validateTaskInput (es ! j) False = Inr [] \<longrightarrow>
                 (\<exists>title. field (es ! j) ''title'' = Some (JStr title)
                    \<and> newTask (uuids (Suc i + j)) (toISOString (clock (Suc i + j))) (es ! j) title
                        \<in> set new))"
            by blast
          have "r = None \<longrightarrow>
              (\<forall>j < length (e # es). validateTaskInput ((e # es) ! j) False = Inr [] \<longrightarrow>
                 (\<exists>title. field ((e # es) ! j) ''title'' = Some (JStr title)
                    \<and> newTask (uuids (i + j)) (toISOString (clock (i + j))) ((e # es) ! j) title
                        \<in> set (?t # new)))"
          proof (intro impI allI)
            fix j
            assume r: "r = None" and j: "j < length (e # es)"
              and v: "validateTaskInput ((e # es) ! j) False = Inr []"
            show "\<exists>title. field ((e # es) ! j) ''title'' = Some (JStr title)
                    \<and> newTask (uuids (i + j)) (toISOString (clock (i + j))) ((e # es) ! j) title
                        \<in> set (?t # new)"
            proof (cases j)
              case 0
              with Some JStr show ?thesis by simp
            next
              case (Suc j')
              with new(3) r j v show ?thesis by auto
            qed
          qed
          with new show ?thesis by (intro exI [of _ "?t # new"]) simp
        qed (use Inr True Some Cons.prems in auto)
      qed
    qed
  qed
qed

lemma bulkCreate_201:
  assumes "status_code (fst (bulkCreate clock uuids w body st)) = Some 201"
  shows "\<exists>elems created errors.
           field body ''tasks'' = Some (JArr elems)
           \<and> bulk_loop clock uuids 0 elems (tasks st) [] []
               = (None, tasks st @ created, created, errors)
           \<and> bulkCreate clock uuids w body st =
               (Response 201 (Some (bulk_body created errors)),
                broadcast_all (map created_event created)
                  (st\<lparr>tasks := tasks st @ created, disk := tasks st @ created\<rparr>))"
proof -
  from assms obtain elems where e: "field body ''tasks'' = Some (JArr elems)"
    and n: "\<not> is_nullish body"
    by (auto simp: bulkCreate_def internal_error_def split: if_splits option.splits json.splits)
  obtain r ts created errors where
    l: "bulk_loop clock uuids 0 elems (tasks st) [] [] = (r, ts, created, errors)"
    by (metis prod_cases4)
  from bulk_loop_appends [OF l] have ts: "ts = tasks st @ created" by auto
  from assms e n l have r: "r = None"
    by (cases r) (auto simp: bulkCreate_def internal_error_def)
  from assms e n l r ts show ?thesis
    by (auto simp: bulkCreate_def internal_error_def Let_def saveTasks_def
        split: if_splits)
qed

lemma tasks_broadcast_all [simp]: "tasks (broadcast_all ms st) = tasks st"
  by (induction ms arbitrary: st) (simp_all add: broadcastToClients_def)

lemma disk_broadcast_all [simp]: "disk (broadcast_all ms st) = disk st"
  by (induction ms arbitrary: st) (simp_all add: broadcastToClients_def)

lemma events_broadcast_all [simp]: "events (broadcast_all ms st) = events st @ ms"
  by (induction ms arbitrary: st) (simp_all add: broadcastToClients_def)

lemma bulk_loop_returns:
  assumes "list_all (\<lambda>e. validateTaskInput e False \<noteq> Inl TypeError) elems"
  shows "fst (bulk_loop clock uuids i elems ts created errors) = None"
  using assms
proof (induction elems arbitrary: i ts created errors)
  case Nil
  then show ?case by simp
next
  case (Cons e es)
  from Cons.prems have es: "list_all (\<lambda>e. validateTaskInput e False \<noteq> Inl TypeError) es"
    and e: "validateTaskInput e False \<noteq> Inl TypeError" by simp_all
  from e obtain errs where errs: "validateTaskInput e False = Inr errs"
    by (cases "validateTaskInput e False") (auto dest: validateTaskInput_Inl)
  show ?case
  proof (cases "errs = []")
    case False
    with errs Cons.IH [OF es] show ?thesis by simp
  next
    case True
    with errs validate_requires_title [of e] obtain title where
      "field e ''title'' = Some (JStr title)" by blast
    with errs True Cons.IH [OF es] show ?thesis by (simp add: Let_def)
  qed
qed

text \<open>
  A bulk request none of whose elements makes the validator throw: every element that
  the validator accepts has its task in the store, and the answer is 201 when the write
  succeeds.
\<close>

lemma bulkCreate_accepted:
  assumes "field body ''tasks'' = Some (JArr elems)"
    and "list_all (\<lambda>e. validateTaskInput e False \<noteq> Inl TypeError) elems"
    and "j < length elems"
    and "validateTaskInput (elems ! j) False = Inr []"
  shows "\<exists>title. field (elems ! j) ''title'' = Some (JStr title)
           \<and> newTask (uuids j) (toISOString (clock j)) (elems ! j) title
               \<in> set (tasks (snd (bulkCreate clock uuids w body st)))
           \<and> (w \<longrightarrow> status_code (fst (bulkCreate clock uuids w body st)) = Some 201)"
proof -
  from assms(1) have n: "\<not> is_nullish body" by (rule field_not_nullish)
  obtain r ts created errors where
    l: "bulk_loop clock uuids 0 elems (tasks st) [] [] = (r, ts, created, errors)"
    by (metis prod_cases4)
  from bulk_loop_returns [OF assms(2), of clock uuids 0 "tasks st" "[]" "[]"] l
  have r: "r = None" by simp
  from bulk_loop_appends [OF l] r assms(3,4) obtain title where
    ts: "ts = tasks st @ created"
    and title: "field (elems ! j) ''title'' = Some (JStr title)"
    and new: "newTask (uuids j) (toISOString (clock j)) (elems ! j) title \<in> set created"
    by auto
  from new have "created \<noteq> []" by auto
  with assms(1) n l r ts title new show ?thesis
    by (auto simp: bulkCreate_def Let_def saveTasks_def)
qed

definition titled :: "json \<Rightarrow> json" where
  "titled v = JObj (fmap_of_list [(''title'', v)])"

definition mixed_bulk :: json where
  "mixed_bulk = JObj (fmap_of_list [(''tasks'', JArr [titled (JStr ''A''), titled (JNum 5)])])"

lemma validate_titled:
  "validateTaskInput (titled (JStr ''A'')) False = Inr []"
  "validateTaskInput (titled (JNum 5)) False = Inl TypeError"
  "field (titled (JStr ''A'')) ''title'' = Some (JStr ''A'')"
  by (simp_all add: validateTaskInput_def titled_def fmlookup_of_list trim_def is_ws_def
        defined_and_not_def)

text \<open>
  C3. The claim is that every element of a bulk request is validated on its own, a failing
  element giving one indexed error and the others being created. An element whose title
  is not text (or whose tags are not a sequence) does not give an error: the validator
  throws on it (see C2), the loop is abandoned and the handler answers 500. The tasks
  pushed before that element stay in the array in memory, are not written to disk and
  are not broadcast. Here the request is \<^verbatim>\<open>{"tasks": [{"title": "A"}, {"title": 5}]}\<close>.
\<close>

theorem bulk_aborts_on_ill_typed_element:
  "status_code (fst (bulkCreate (\<lambda>n. 0) show_nat True mixed_bulk demo_store)) = Some 500
   \<and> tasks (snd (bulkCreate (\<lambda>n. 0) show_nat True mixed_bulk demo_store))
       = tasks demo_store @ [newTask (show_nat 0) (toISOString 0) (titled (JStr ''A'')) ''A'']
   \<and> disk (snd (bulkCreate (\<lambda>n. 0) show_nat True mixed_bulk demo_store)) = disk demo_store
   \<and> events (snd (bulkCreate (\<lambda>n. 0) show_nat True mixed_bulk demo_store)) = events demo_store"
  by (simp add: bulkCreate_def mixed_bulk_def validate_titled internal_error_def Let_def)

subsection \<open>The order field is never validated\<close>

lemma validate_ignores_order:
  "validateTaskInput (JObj (fmupd ''order'' v m)) u = validateTaskInput (JObj (fmdrop ''order'' m)) u"
  by (simp add: validateTaskInput_def)

text \<open>
  C10. The validator's result does not depend on \<^verbatim>\<open>order\<close>: with any value under that
  name it returns what it returns without the name, so no message of it is about
  \<^verbatim>\<open>order\<close> and no value of \<^verbatim>\<open>order\<close> makes it refuse a request. Whatever value a request
  supplies as \<^verbatim>\<open>order\<close>: a create that the validator accepts appends one task, which has
  that value as its \<^verbatim>\<open>order\<close>; a move of an existing task to a status of the enumeration
  stores that value on the task; and in a bulk create none of whose elements makes the
  validator throw, every element that the validator accepts has its task in the store,
  under the identifier drawn for it, with the \<^verbatim>\<open>order\<close> of the element. When the write
  succeeds the answers are 201, 200 and 201.
\<close>

theorem order_is_stored_unvalidated:
  "validateTaskInput (JObj (fmupd ''order'' v m)) u
     = validateTaskInput (JObj (fmdrop ''order'' m)) u
   \<and> (validateTaskInput body False = Inr [] \<and> field body ''order'' = Some v
      \<longrightarrow> fmlookup (last (tasks (snd (createTask now uuid w body st)))) ''order'' = Some v
          \<and> tasks (snd (createTask now uuid w body st))
              = tasks st @ [last (tasks (snd (createTask now uuid w body st)))]
          \<and> (w \<longrightarrow> fst (createTask now uuid w body st)
                = Response 201 (Some (JObj (last (tasks (snd (createTask now uuid w body st))))))))
   \<and> (findIndex (has_id i) (tasks st) = Some k
        \<and> member_of VALID_STATUSES (field body ''status'') \<and> field body ''order'' = Some v
      \<longrightarrow> fmlookup (tasks (snd (moveTask now w i body st)) ! k) ''order'' = Some v
          \<and> (w \<longrightarrow> fst (moveTask now w i body st)
                = Response 200 (Some (JObj (tasks (snd (moveTask now w i body st)) ! k)))))
   \<and> (field body ''tasks'' = Some (JArr elems)
        \<and> (\<forall>e \<in> set elems. validateTaskInput e False \<noteq> Inl TypeError)
        \<and> j < length elems
        \<and> validateTaskInput (elems ! j) False = Inr []
        \<and> field (elems ! j) ''order'' = Some v
      \<longrightarrow> (\<exists>t \<in> set (tasks (snd (bulkCreate clock uuids w body st))).
             fmlookup t ''id'' = Some (JStr (uuids j)) \<and> fmlookup t ''order'' = Some v)
          \<and> (w \<longrightarrow> status_code (fst (bulkCreate clock uuids w body st)) = Some 201))"
proof (intro conjI impI)
  show "validateTaskInput (JObj (fmupd ''order'' v m)) u
          = validateTaskInput (JObj (fmdrop ''order'' m)) u"
    by (rule validate_ignores_order)
next
  assume a: "validateTaskInput body False = Inr [] \<and> field body ''order'' = Some v"
  then have "validateTaskInput body False = Inr []" by simp
  from createTask_accepted [OF this, of now uuid w st] obtain title where
    r: "tasks (snd (createTask now uuid w body st))
          = tasks st @ [newTask uuid (toISOString now) body title]"
    and c: "w \<longrightarrow> fst (createTask now uuid w body st)
                 = Response 201 (Some (JObj (newTask uuid (toISOString now) body title)))"
    by blast
  show "fmlookup (last (tasks (snd (createTask now uuid w body st)))) ''order'' = Some v"
    using a by (simp add: r newTask_fields)
  show "tasks (snd (createTask now uuid w body st))
              = tasks st @ [last (tasks (snd (createTask now uuid w body st)))]"
    by (simp add: r)
  have l: "last (tasks (snd (createTask now uuid w body st)))
             = newTask uuid (toISOString now) body title"
    by (simp add: r)
  show "fst (createTask now uuid w body st)
          = Response 201 (Some (JObj (last (tasks (snd (createTask now uuid w body st))))))"
    if w using that c unfolding l by blast
next
  assume a: "findIndex (has_id i) (tasks st) = Some k
        \<and> member_of VALID_STATUSES (field body ''status'') \<and> field body ''order'' = Some v"
  then have k: "findIndex (has_id i) (tasks st) = Some k"
    and m: "member_of VALID_STATUSES (field body ''status'')" by simp_all
  from findIndex_Some [OF k] have lt: "k < length (tasks st)" by simp
  then show "fmlookup (tasks (snd (moveTask now w i body st)) ! k) ''order'' = Some v"
    using moveTask_valid(1) [OF k m, where now = now and w = w] a
    by (simp add: movedTask_fields)
  have l: "tasks (snd (moveTask now w i body st)) ! k
             = movedTask (toISOString now) (tasks st ! k) body"
    using lt moveTask_valid(1) [OF k m, where now = now and w = w] by simp
  show "fst (moveTask now w i body st)
          = Response 200 (Some (JObj (tasks (snd (moveTask now w i body st)) ! k)))"
    if w using moveTask_valid(2) [OF k m that, where now = now] unfolding l .
next
  assume a: "field body ''tasks'' = Some (JArr elems)
        \<and> (\<forall>e \<in> set elems. validateTaskInput e False \<noteq> Inl TypeError)
        \<and> j < length elems
        \<and> validateTaskInput (elems ! j) False = Inr []
        \<and> field (elems ! j) ''order'' = Some v"
  then have e: "field body ''tasks'' = Some (JArr elems)"
    and n: "list_all (\<lambda>e. validateTaskInput e False \<noteq> Inl TypeError) elems"
    and j: "j < length elems" and v: "validateTaskInput (elems ! j) False = Inr []"
    by (simp_all add: list_all_iff)
  from bulkCreate_accepted [OF e n j v, of uuids clock w st] obtain title where
    t: "newTask (uuids j) (toISOString (clock j)) (elems ! j) title
               \<in> set (tasks (snd (bulkCreate clock uuids w body st)))"
    and c: "w \<longrightarrow> status_code (fst (bulkCreate clock uuids w body st)) = Some 201"
    by blast
  from t show "\<exists>t \<in> set (tasks (snd (bulkCreate clock uuids w body st))).
             fmlookup t ''id'' = Some (JStr (uuids j)) \<and> fmlookup t ''order'' = Some v"
    using a by (auto simp: newTask_fields intro!: bexI
        [of _ "newTask (uuids j) (toISOString (clock j)) (elems ! j) title"])
  show "status_code (fst (bulkCreate clock uuids w body st)) = Some 201" if w
    using that c by simp
qed


definition text_order_fields :: obj where
  "text_order_fields =
     fmap_of_list [(''title'', JStr ''A''), (''status'', JStr ''done''), (''order'', JStr ''first'')]"

definition text_order_bulk :: json where
  "text_order_bulk = JObj (fmap_of_list [(''tasks'', JArr [JObj text_order_fields])])"

lemma validate_text_order: "validateTaskInput (JObj text_order_fields) False = Inr []"
  by (simp add: validateTaskInput_def text_order_fields_def fmlookup_of_list trim_def is_ws_def
        defined_and_not_def VALID_STATUSES_def)

text \<open>
  The text \<^verbatim>\<open>first\<close> as \<^verbatim>\<open>order\<close>, in a create, in a move of the task \<^verbatim>\<open>t1\<close> and as the one
  element of a bulk create: the validator accepts the fields, each operation stores the
  text, and the answers are 201, 200 and 201.
\<close>

theorem order_is_stored_unvalidated_witness:
  "validateTaskInput (JObj text_order_fields) False = Inr []
   \<and> fmlookup (last (tasks (snd (createTask 0 ''u2'' True (JObj text_order_fields) demo_store))))
         ''order'' = Some (JStr ''first'')
   \<and> status_code (fst (createTask 0 ''u2'' True (JObj text_order_fields) demo_store)) = Some 201
   \<and> findIndex (has_id ''t1'') (tasks demo_store) = Some 0
   \<and> fmlookup (tasks (snd (moveTask 0 True ''t1'' (JObj text_order_fields) demo_store)) ! 0)
         ''order'' = Some (JStr ''first'')
   \<and> status_code (fst (moveTask 0 True ''t1'' (JObj text_order_fields) demo_store)) = Some 200
   \<and> (\<exists>t \<in> set (tasks (snd (bulkCreate (\<lambda>n. 0) show_nat True text_order_bulk demo_store))).
         fmlookup t ''id'' = Some (JStr (show_nat 0)) \<and> fmlookup t ''order'' = Some (JStr ''first''))
   \<and> status_code (fst (bulkCreate (\<lambda>n. 0) show_nat True text_order_bulk demo_store)) = Some 201"
  using order_is_stored_unvalidated
          [where v = "JStr ''first''" and m = text_order_fields and u = False and now = 0
             and uuid = "''u2''" and w = True and body = "JObj text_order_fields"
             and st = demo_store and i = "''t1''" and k = 0 and clock = "\<lambda>n. 0"
             and uuids = show_nat and elems = "[JObj text_order_fields]" and j = 0]
        order_is_stored_unvalidated
          [where v = "JStr ''first''" and m = text_order_fields and u = False and now = 0
             and uuid = "''u2''" and w = True and body = text_order_bulk
             and st = demo_store and i = "''t1''" and k = 0 and clock = "\<lambda>n. 0"
             and uuids = show_nat and elems = "[JObj text_order_fields]" and j = 0]
        findIndex_demo validate_text_order
  by (simp add: text_order_fields_def text_order_bulk_def fmlookup_of_list VALID_STATUSES_def)


section \<open>Clear done\<close>

lemma length_filter_done:
  "length xs - length (filter (\<lambda>t. \<not> P t) xs) = length (filter P xs)"
  using sum_length_filter_compl [of P xs] by simp

lemma deleted_events_props:
  "length (deleted_events clock ds) = length ds"
  "map ev_task (deleted_events clock ds) = ds"
  "map ev_type (deleted_events clock ds) = replicate (length ds) ''task_deleted''"
proof -
  show "length (deleted_events clock ds) = length ds"
    by (simp add: deleted_events_def)
  have "map ev_task (deleted_events clock ds) = map snd (zip [0..<length ds] ds)"
    by (simp add: deleted_events_def case_prod_beta comp_def)
  then show "map ev_task (deleted_events clock ds) = ds"
    by (simp add: map_snd_zip)
  have "map ev_type (deleted_events clock ds)
          = map (\<lambda>p. ''task_deleted'') (zip [0..<length ds] ds)"
    by (simp add: deleted_events_def case_prod_beta comp_def)
  then show "map ev_type (deleted_events clock ds) = replicate (length ds) ''task_deleted''"
    by (simp add: map_replicate_const)
qed

text \<open>
  C8. Clear done (the query \<^verbatim>\<open>status=done\<close>) leaves in memory exactly the tasks that are
  not done, in their order and unchanged. When the write to disk succeeds, the answer is
  200 with the number of done tasks as \<^verbatim>\<open>deleted\<close>, the snapshot on disk is the remaining
  tasks, and the events broadcast are one \<^verbatim>\<open>task_deleted\<close> for each done task, in the
  order of the store, each carrying its task.
\<close>

theorem clearDone_removes_done_tasks:
  "tasks (snd (clearDone clock w (Some ''done'') st)) = filter (\<lambda>t. \<not> is_done t) (tasks st)
   \<and> (w \<longrightarrow>
        fst (clearDone clock w (Some ''done'') st)
          = Response 200 (Some (JObj (fmap_of_list
              [(''deleted'', JNum (of_nat (length (filter is_done (tasks st)))))])))
        \<and> disk (snd (clearDone clock w (Some ''done'') st))
            = filter (\<lambda>t. \<not> is_done t) (tasks st)
        \<and> events (snd (clearDone clock w (Some ''done'') st))
            = events st @ deleted_events clock (filter is_done (tasks st))
        \<and> map ev_task (deleted_events clock (filter is_done (tasks st)))
            = filter is_done (tasks st)
        \<and> map ev_type (deleted_events clock (filter is_done (tasks st)))
            = replicate (length (filter is_done (tasks st))) ''task_deleted'')"
  by (simp add: clearDone_def Let_def saveTasks_def length_filter_done deleted_events_props)


definition card_in :: "string \<Rightarrow> string \<Rightarrow> obj" where
  "card_in i s = fmap_of_list [(''id'', JStr i), (''title'', JStr ''T''), (''status'', JStr s)]"

definition five_store :: state where
  "five_store =
     \<lparr>tasks = [card_in ''a'' ''done'', card_in ''b'' ''todo'', card_in ''c'' ''done'',
               card_in ''d'' ''review'', card_in ''e'' ''done''],
      disk = [], events = []\<rparr>"

lemma is_done_card_in: "is_done (card_in i s) = (s = ''done'')"
  by (simp add: is_done_def card_in_def fmlookup_of_list)

theorem clearDone_removes_done_tasks_witness:
  "tasks (snd (clearDone (\<lambda>n. 0) True (Some ''done'') five_store))
     = [card_in ''b'' ''todo'', card_in ''d'' ''review'']
   \<and> fst (clearDone (\<lambda>n. 0) True (Some ''done'') five_store)
       = Response 200 (Some (JObj (fmap_of_list [(''deleted'', JNum 3)])))
   \<and> map ev_task (events (snd (clearDone (\<lambda>n. 0) True (Some ''done'') five_store)))
       = [card_in ''a'' ''done'', card_in ''c'' ''done'', card_in ''e'' ''done'']
   \<and> map ev_type (events (snd (clearDone (\<lambda>n. 0) True (Some ''done'') five_store)))
       = [''task_deleted'', ''task_deleted'', ''task_deleted'']"
  using clearDone_removes_done_tasks [where clock = "\<lambda>n. 0" and w = True and st = five_store]
  by (simp add: five_store_def is_done_card_in numeral_3_eq_3)


section \<open>Stats\<close>

text \<open>The number of tasks that have the text \<open>v\<close> under the name \<open>name\<close>.\<close>

definition tally_of :: "string \<Rightarrow> string \<Rightarrow> obj list \<Rightarrow> nat" where
  "tally_of name v xs = length (filter (\<lambda>t. fmlookup t name = Some (JStr v)) xs)"

definition counted :: "string list \<Rightarrow> string \<Rightarrow> obj list \<Rightarrow> counters" where
  "counted names name xs = fmap_of_list (map (\<lambda>v. (v, Some (tally_of name v xs))) names)"

lemma fmlookup_counted:
  "fmlookup (counted names name xs) v
     = (if v \<in> set names then Some (Some (tally_of name v xs)) else None)"
  by (simp add: counted_def fmlookup_of_list map_of_map_restrict restrict_map_def
      del: fmap_of_list.rep_eq)

lemma counted_Nil: "counted names name [] = zero_counters names"
  by (simp add: counted_def zero_counters_def tally_of_def)

lemma member_of_iff: "member_of xs x \<longleftrightarrow> (\<exists>s. x = Some (JStr s) \<and> s \<in> set xs)"
proof (cases x)
  case None
  then show ?thesis by simp
next
  case (Some v)
  then show ?thesis by (cases v) simp_all
qed

lemma bump_counted:
  assumes "member_of names (fmlookup t name)" and "''__proto__'' \<notin> set names"
  shows "bump (fmlookup t name) (counted names name pre) = Some (counted names name (pre @ [t]))"
proof -
  from assms(1) obtain s where s: "fmlookup t name = Some (JStr s)" "s \<in> set names"
    by (auto simp: member_of_iff)
  have "fmupd s (Some (Suc (tally_of name s pre))) (counted names name pre)
          = counted names name (pre @ [t])"
  proof (rule fmap_ext)
    fix v
    show "fmlookup (fmupd s (Some (Suc (tally_of name s pre))) (counted names name pre)) v
            = fmlookup (counted names name (pre @ [t])) v"
      using s by (auto simp: fmlookup_counted tally_of_def)
  qed
  with s assms(2) show ?thesis
    by (auto simp: bump_def fmlookup_counted)
qed


text \<open>
  A task whose status and priority are of the enumerations, as every task that the
  handlers store is.
\<close>

definition enumerated :: "obj \<Rightarrow> bool" where
  "enumerated t =
     (member_of VALID_STATUSES (fmlookup t ''status'')
      \<and> member_of VALID_PRIORITIES (fmlookup t ''priority''))"

text \<open>
  The task was last changed at the time \<open>u\<close>, which is not after \<open>now\<close>: its
  \<^verbatim>\<open>updated_at\<close> is the text of \<open>u\<close>.
\<close>

definition stamped :: "int \<Rightarrow> obj \<Rightarrow> int \<Rightarrow> bool" where
  "stamped now t u =
     (fmlookup t ''updated_at'' = Some (JStr (toISOString u)) \<and> 0 \<le> u \<and> u \<le> now)"

text \<open>A task, with the time of its last change, that was completed in the 24 hours before \<open>now\<close>.\<close>

definition recently_done :: "int \<Rightarrow> obj \<times> int \<Rightarrow> bool" where
  "recently_done now p = (is_done (fst p) \<and> now - 86400000 \<le> snd p \<and> snd p \<le> now)"

lemma proto_not_enumerated:
  "''__proto__'' \<notin> set VALID_STATUSES" "''__proto__'' \<notin> set VALID_PRIORITIES"
  by (simp_all add: VALID_STATUSES_def VALID_PRIORITIES_def)

lemma stats_step_counts:
  assumes "enumerated t" "stamped now t u" "86400000 \<le> now" "now < maxTime"
  shows "stats_step (toISOString (now - 86400000)) t
           \<lparr>byStatus = counted VALID_STATUSES ''status'' pre,
            byPriority = counted VALID_PRIORITIES ''priority'' pre,
            recentlyCompleted = k\<rparr>
         = Some \<lparr>byStatus = counted VALID_STATUSES ''status'' (pre @ [t]),
                 byPriority = counted VALID_PRIORITIES ''priority'' (pre @ [t]),
                 recentlyCompleted = k + (if recently_done now (t, u) then 1 else 0)\<rparr>"
proof -
  from assms(1) have
    bs: "bump (fmlookup t ''status'') (counted VALID_STATUSES ''status'' pre)
           = Some (counted VALID_STATUSES ''status'' (pre @ [t]))"
    and bp: "bump (fmlookup t ''priority'') (counted VALID_PRIORITIES ''priority'' pre)
           = Some (counted VALID_PRIORITIES ''priority'' (pre @ [t]))"
    by (simp_all add: enumerated_def bump_counted proto_not_enumerated)
  from assms(2) have u: "fmlookup t ''updated_at'' = Some (JStr (toISOString u))"
    "0 \<le> u" "u \<le> now"
    by (simp_all add: stamped_def)
  have "str_le (toISOString (now - 86400000)) (toISOString u) = (now - 86400000 \<le> u)"
    using assms(3,4) u(2,3) by (intro toISOString_order) simp_all
  then have g: "ge_text (fmlookup t ''updated_at'') (toISOString (now - 86400000))
                  = Some (now - 86400000 \<le> u)"
    by (simp add: u(1))
  show ?thesis
    using u(3) by (simp add: stats_step_def bs bp g recently_done_def is_done_def)
qed

lemma stats_loop_counts:
  assumes "list_all enumerated xs" "list_all2 (stamped now) xs us"
    "86400000 \<le> now" "now < maxTime"
  shows "stats_loop (toISOString (now - 86400000)) xs
           \<lparr>byStatus = counted VALID_STATUSES ''status'' pre,
            byPriority = counted VALID_PRIORITIES ''priority'' pre,
            recentlyCompleted = k\<rparr>
         = Some \<lparr>byStatus = counted VALID_STATUSES ''status'' (pre @ xs),
                 byPriority = counted VALID_PRIORITIES ''priority'' (pre @ xs),
                 recentlyCompleted = k + length (filter (recently_done now) (zip xs us))\<rparr>"
  using assms(1,2)
proof (induction xs arbitrary: us pre k)
  case Nil
  then show ?case by simp
next
  case (Cons t ts)
  from Cons.prems(2) obtain u us' where us: "us = u # us'" "stamped now t u"
    "list_all2 (stamped now) ts us'"
    by (auto simp: list_all2_Cons1)
  from Cons.prems(1) have e: "enumerated t" "list_all enumerated ts" by simp_all
  show ?case
    using Cons.IH [OF e(2) us(3), of "pre @ [t]"]
    by (simp add: stats_step_counts [OF e(1) us(2) assms(3,4)] us(1))
qed


subsection \<open>The enumerations and the dating are invariants of the store\<close>

lemma show_nat_digits: "c \<in> set (show_nat n) \<Longrightarrow> (of_char c :: nat) < 58"
proof (induction n rule: show_nat.induct)
  case (1 n)
  show ?case
  proof (cases "n < 10")
    case True
    with "1.prems" have "c = digit n" by (subst (asm) show_nat.simps) simp
    with True show ?thesis by (simp add: of_char_digit)
  next
    case False
    with "1.prems" have "c \<in> set (show_nat (n div 10)) \<or> c = digit (n mod 10)"
      by (subst (asm) show_nat.simps) auto
    with "1.IH" [OF False] show ?thesis
      using of_char_digit [of "n mod 10"] by auto
  qed
qed

lemma show_nat_not_name: "''status'' \<notin> range show_nat" "''priority'' \<notin> range show_nat"
proof -
  have "show_nat n \<noteq> ''status''" for n
    using show_nat_digits [of "CHR ''s''" n] by auto
  then show "''status'' \<notin> range show_nat" by (metis rangeE)
  have "show_nat n \<noteq> ''priority''" for n
    using show_nat_digits [of "CHR ''p''" n] by auto
  then show "''priority'' \<notin> range show_nat" by (metis rangeE)
qed

lemma index_keys_lookup:
  assumes "k \<notin> range show_nat"
  shows "fmlookup (fmap_of_list (zip (map show_nat [0..<m]) xs)) k = None"
proof -
  have "k \<notin> fst ` set (zip (map show_nat [0..<m]) xs)"
    using assms by (auto dest!: set_zip_leftD)
  then show ?thesis
    by (simp add: fmlookup_of_list map_of_eq_None_iff del: fmap_of_list.rep_eq)
qed

lemma spread_enum_field:
  "fmlookup (spread body) ''status'' = field body ''status''"
  "fmlookup (spread body) ''priority'' = field body ''priority''"
  by (cases body; simp add: index_keys_lookup show_nat_not_name)+

lemma validate_enums:
  assumes "validateTaskInput data u = Inr []"
  shows "field data ''status'' = None \<or> member_of VALID_STATUSES (field data ''status'')"
    and "field data ''priority'' = None \<or> member_of VALID_PRIORITIES (field data ''priority'')"
proof -
  have "\<not> (outside VALID_STATUSES (field data ''status'')
           \<or> outside VALID_PRIORITIES (field data ''priority''))"
    using assms validate_reports_enums [of data u] by blast
  then show "field data ''status'' = None \<or> member_of VALID_STATUSES (field data ''status'')"
    and "field data ''priority'' = None \<or> member_of VALID_PRIORITIES (field data ''priority'')"
    by (auto simp: outside_def)
qed

lemma or_default_member:
  assumes "x = None \<or> member_of names x" and "d \<in> set names" and "[] \<notin> set names"
  shows "member_of names (Some (or_default x (JStr d)))"
  using assms by (auto simp: or_default_def member_of_iff)

lemma newTask_enumerated:
  assumes "validateTaskInput data False = Inr []"
  shows "enumerated (newTask uuid now data title)"
  using validate_enums [OF assms]
  by (simp add: enumerated_def newTask_def fmlookup_of_list or_default_member
      VALID_STATUSES_def VALID_PRIORITIES_def del: fmap_of_list.rep_eq)


lemma updatedTask_enumerated:
  assumes "enumerated old" "validateTaskInput body True = Inr []"
    "updatedTask now old body = Inr t"
  shows "enumerated t"
proof -
  have "fmlookup t ''status''
          = (case field body ''status'' of Some v \<Rightarrow> Some v | None \<Rightarrow> fmlookup old ''status'')"
    and "fmlookup t ''priority''
          = (case field body ''priority'' of Some v \<Rightarrow> Some v | None \<Rightarrow> fmlookup old ''priority'')"
    using updatedTask_copies [OF assms(3)] by (simp_all add: spread_enum_field)
  with assms(1) validate_enums [OF assms(2)] show ?thesis
    by (auto simp: enumerated_def split: option.splits)
qed

lemma movedTask_enumerated:
  assumes "enumerated old" "member_of VALID_STATUSES (field body ''status'')"
  shows "enumerated (movedTask now old body)"
  using assms by (simp add: enumerated_def movedTask_def)

lemma bulk_loop_enumerated:
  "list_all enumerated ts
     \<Longrightarrow> bulk_loop clock uuids i elems ts created errors = (r, ts', created', errors')
     \<Longrightarrow> list_all enumerated ts'"
proof (induction elems arbitrary: i ts created errors)
  case Nil
  then show ?case by simp
next
  case (Cons e es)
  show ?case
  proof (cases "validateTaskInput e False")
    case (Inl x)
    with Cons.prems show ?thesis by simp
  next
    case (Inr errs)
    show ?thesis
    proof (cases "errs = []")
      case False
      with Inr Cons.prems Cons.IH show ?thesis by auto
    next
      case True
      with Inr have v: "validateTaskInput e False = Inr []" by simp
      show ?thesis
      proof (cases "field e ''title''")
        case None
        with v Cons.prems show ?thesis by simp
      next
        case (Some tv)
        show ?thesis
        proof (cases tv)
          case (JStr title)
          let ?t = "newTask (uuids i) (toISOString (clock i)) e title"
          from v Some JStr Cons.prems(2) have
            "bulk_loop clock uuids (Suc i) es (ts @ [?t]) (created @ [?t]) errors
               = (r, ts', created', errors')"
            by (simp add: Let_def)
          moreover have "list_all enumerated (ts @ [?t])"
            using Cons.prems(1) newTask_enumerated [OF v] by simp
          ultimately show ?thesis by (rule Cons.IH [rotated])
        qed (use v Some Cons.prems in auto)
      qed
    qed
  qed
qed

text \<open>
  The enumerations are an invariant of the store: from a store whose tasks are all
  enumerated, every handler that changes the store leaves such a store.
\<close>

lemma handlers_keep_enumerated:
  assumes "list_all enumerated (tasks st)"
  shows "list_all enumerated (tasks (snd (createTask now uuid w body st)))"
    and "list_all enumerated (tasks (snd (updateTask now w i body st)))"
    and "list_all enumerated (tasks (snd (moveTask now w i body st)))"
    and "list_all enumerated (tasks (snd (deleteTask now w i st)))"
    and "list_all enumerated (tasks (snd (bulkCreate clock uuids w body st)))"
    and "list_all enumerated (tasks (snd (clearDone clock w qs st)))"
proof -
  show "list_all enumerated (tasks (snd (createTask now uuid w body st)))"
  proof (cases "validateTaskInput body False = Inr []")
    case True
    with assms newTask_enumerated [OF True] show ?thesis
      by (auto simp: createTask_def Let_def saveTasks_def broadcastToClients_def
          split: option.splits json.splits)
  next
    case False
    with assms show ?thesis
      by (auto simp: createTask_def split: sum.splits)
  qed
  show "list_all enumerated (tasks (snd (updateTask now w i body st)))"
  proof (cases "findIndex (has_id i) (tasks st)")
    case None
    with assms show ?thesis by (simp add: updateTask_def)
  next
    case (Some k)
    from findIndex_Some [OF Some] assms have old: "enumerated (tasks st ! k)"
      by (simp add: list_all_length)
    show ?thesis
    proof (cases "validateTaskInput body True = Inr []")
      case True
      show ?thesis
      proof (cases "updatedTask (toISOString now) (tasks st ! k) body")
        case (Inl e)
        with Some True assms show ?thesis by (simp add: updateTask_def)
      next
        case (Inr t)
        from updatedTask_enumerated [OF old True Inr] assms
        have "list_all enumerated ((tasks st)[k := t])"
          by (auto simp: list_all_iff dest!: set_update_subset_insert [THEN subsetD])
        with Some True Inr show ?thesis
          by (auto simp: updateTask_def Let_def saveTasks_def broadcastToClients_def)
      qed
    next
      case False
      with Some assms show ?thesis
        by (auto simp: updateTask_def split: sum.splits)
    qed
  qed
  show "list_all enumerated (tasks (snd (moveTask now w i body st)))"
  proof (cases "findIndex (has_id i) (tasks st)")
    case None
    with assms show ?thesis by (simp add: moveTask_def)
  next
    case (Some k)
    from findIndex_Some [OF Some] assms have old: "enumerated (tasks st ! k)"
      by (simp add: list_all_length)
    show ?thesis
    proof (cases "member_of VALID_STATUSES (field body ''status'')")
      case True
      from movedTask_enumerated [OF old True] assms
      have "list_all enumerated ((tasks st)[k := movedTask (toISOString now) (tasks st ! k) body])"
        by (auto simp: list_all_iff dest!: set_update_subset_insert [THEN subsetD])
      then show ?thesis by (simp add: moveTask_valid(1) [OF Some True])
    next
      case False
      with Some assms show ?thesis by (simp add: moveTask_def)
    qed
  qed
  show "list_all enumerated (tasks (snd (deleteTask now w i st)))"
    using assms
    by (auto simp: deleteTask_def Let_def saveTasks_def broadcastToClients_def list_all_iff
        split: option.splits dest: in_set_takeD in_set_dropD)
  show "list_all enumerated (tasks (snd (bulkCreate clock uuids w body st)))"
  proof (cases "field body ''tasks''")
    case None
    with assms show ?thesis by (simp add: bulkCreate_def)
  next
    case (Some v)
    show ?thesis
    proof (cases v)
      case (JArr elems)
      obtain r ts created errors where
        l: "bulk_loop clock uuids 0 elems (tasks st) [] [] = (r, ts, created, errors)"
        by (metis prod_cases4)
      from bulk_loop_enumerated [OF assms l] have "list_all enumerated ts" .
      with assms Some JArr l show ?thesis
        by (cases r) (auto simp: bulkCreate_def Let_def saveTasks_def)
    qed (use assms Some in \<open>auto simp: bulkCreate_def\<close>)
  qed
  show "list_all enumerated (tasks (snd (clearDone clock w qs st)))"
    using assms
    by (auto simp: clearDone_def Let_def saveTasks_def list_all_iff)
qed

lemma enumerated_has_rank: "enumerated t \<Longrightarrow> rank_of t \<noteq> None"
  by (auto simp: enumerated_def member_of_iff rank_of_def statusOrder_def VALID_STATUSES_def)

lemma newTask_stamped: "0 \<le> now \<Longrightarrow> now \<le> T \<Longrightarrow> stamped T (newTask uuid (toISOString now) data title) now"
  by (simp add: stamped_def newTask_fields)

lemma bulk_loop_stamped:
  assumes "\<And>n. 0 \<le> clock n \<and> clock n \<le> T"
  shows "list_all2 (stamped T) ts us
     \<Longrightarrow> bulk_loop clock uuids i elems ts created errors = (r, ts', created', errors')
     \<Longrightarrow> \<exists>us'. list_all2 (stamped T) ts' us'"
proof (induction elems arbitrary: i ts us created errors)
  case Nil
  then show ?case by auto
next
  case (Cons e es)
  show ?case
  proof (cases "validateTaskInput e False")
    case (Inl x)
    with Cons.prems show ?thesis by auto
  next
    case (Inr errs)
    show ?thesis
    proof (cases "errs = []")
      case False
      with Inr Cons.prems Cons.IH show ?thesis by auto
    next
      case True
      with Inr have v: "validateTaskInput e False = Inr []" by simp
      show ?thesis
      proof (cases "field e ''title''")
        case None
        with v Cons.prems show ?thesis by auto
      next
        case (Some tv)
        show ?thesis
        proof (cases tv)
          case (JStr title)
          let ?t = "newTask (uuids i) (toISOString (clock i)) e title"
          from v Some JStr Cons.prems(2) have
            "bulk_loop clock uuids (Suc i) es (ts @ [?t]) (created @ [?t]) errors
               = (r, ts', created', errors')"
            by (simp add: Let_def)
          moreover have "list_all2 (stamped T) (ts @ [?t]) (us @ [clock i])"
            using Cons.prems(1) assms [of i] by (simp add: list_all2_appendI newTask_stamped)
          ultimately show ?thesis by (rule Cons.IH [rotated])
        qed (use v Some Cons.prems in auto)
      qed
    qed
  qed
qed

lemma list_all2_filter_fst:
  "list_all2 P xs ys \<Longrightarrow> \<exists>ys'. list_all2 P (filter Q xs) ys'"
proof (induction xs ys rule: list_all2_induct)
  case Nil
  then show ?case by simp
next
  case (Cons x xs y ys)
  then obtain ys' where "list_all2 P (filter Q xs) ys'" by blast
  with Cons.hyps(1) show ?case
    by (cases "Q x") (auto intro: exI [of _ "y # ys'"])
qed

text \<open>
  So is the dating of the tasks: from a store whose tasks are all stamped with times up to
  \<open>T\<close>, a handler that reads the clock at \<open>now\<close>, between the epoch and \<open>T\<close>, leaves such a
  store.
\<close>

lemma handlers_keep_stamped:
  assumes "list_all2 (stamped T) (tasks st) us" and "0 \<le> now" and "now \<le> T"
    and "\<And>n. 0 \<le> clock n \<and> clock n \<le> T"
  shows "\<exists>us'. list_all2 (stamped T) (tasks (snd (createTask now uuid w body st))) us'"
    and "\<exists>us'. list_all2 (stamped T) (tasks (snd (updateTask now w i body st))) us'"
    and "\<exists>us'. list_all2 (stamped T) (tasks (snd (moveTask now w i body st))) us'"
    and "\<exists>us'. list_all2 (stamped T) (tasks (snd (deleteTask now w i st))) us'"
    and "\<exists>us'. list_all2 (stamped T) (tasks (snd (bulkCreate clock uuids w body st))) us'"
    and "\<exists>us'. list_all2 (stamped T) (tasks (snd (clearDone clock w qs st))) us'"
proof -
  have same: "\<exists>us'. list_all2 (stamped T) (tasks st) us'"
    using assms(1) by blast
  have app: "\<exists>us'. list_all2 (stamped T)
                (tasks st @ [newTask uuid (toISOString now) body title]) us'" for title
    using assms(1) newTask_stamped [OF assms(2,3)]
    by (intro exI [of _ "us @ [now]"]) (simp add: list_all2_appendI)
  have upd: "\<exists>us'. list_all2 (stamped T) ((tasks st)[k := t]) us'"
    if "fmlookup t ''updated_at'' = Some (JStr (toISOString now))" for k t
    using assms(1-3) that
    by (intro exI [of _ "us[k := now]"]) (simp add: list_all2_update_cong stamped_def)
  show "\<exists>us'. list_all2 (stamped T) (tasks (snd (createTask now uuid w body st))) us'"
    using same app
    by (auto simp: createTask_def Let_def saveTasks_def broadcastToClients_def
        split: sum.splits option.splits json.splits)
  show "\<exists>us'. list_all2 (stamped T) (tasks (snd (updateTask now w i body st))) us'"
    using same upd updatedTask_identity(3)
    by (auto simp: updateTask_def Let_def saveTasks_def broadcastToClients_def
        split: sum.splits option.splits)
  show "\<exists>us'. list_all2 (stamped T) (tasks (snd (moveTask now w i body st))) us'"
    using same upd movedTask_fields(3)
    by (auto simp: moveTask_def Let_def saveTasks_def broadcastToClients_def
        split: sum.splits option.splits)
  have del: "\<exists>us'. list_all2 (stamped T) (take k (tasks st) @ drop (Suc k) (tasks st)) us'" for k
    using assms(1)
    by (intro exI [of _ "take k us @ drop (Suc k) us"])
       (simp add: list_all2_appendI list_all2_takeI list_all2_dropI)
  show "\<exists>us'. list_all2 (stamped T) (tasks (snd (deleteTask now w i st))) us'"
    using same del
    by (auto simp: deleteTask_def Let_def saveTasks_def broadcastToClients_def
        split: sum.splits option.splits)
  show "\<exists>us'. list_all2 (stamped T) (tasks (snd (bulkCreate clock uuids w body st))) us'"
  proof (cases "field body ''tasks''")
    case None
    with same show ?thesis by (simp add: bulkCreate_def)
  next
    case (Some v)
    show ?thesis
    proof (cases v)
      case (JArr elems)
      obtain r ts created errors where
        l: "bulk_loop clock uuids 0 elems (tasks st) [] [] = (r, ts, created, errors)"
        by (metis prod_cases4)
      from bulk_loop_stamped [OF assms(4) assms(1) l] have "\<exists>us'. list_all2 (stamped T) ts us'" .
      with same Some JArr l show ?thesis
        by (cases r) (auto simp: bulkCreate_def Let_def saveTasks_def)
    qed (use same Some in \<open>auto simp: bulkCreate_def\<close>)
  qed
  show "\<exists>us'. list_all2 (stamped T) (tasks (snd (clearDone clock w qs st))) us'"
    using same list_all2_filter_fst [OF assms(1), of "\<lambda>t. \<not> is_done t"]
    by (auto simp: clearDone_def Let_def saveTasks_def)
qed

subsection \<open>What the statistics count\<close>

text \<open>
  C7. Take a store whose tasks have a status and a priority of the enumerations, each
  last changed at a known time between the epoch and now, with the text of that time as
  \<^verbatim>\<open>updated_at\<close> (the handlers keep a store so: \<open>handlers_keep_enumerated\<close>,
  \<open>handlers_keep_stamped\<close>); and a call made at least one day after the epoch and before
  the year 10000. Stats answers 200 and leaves the store
  alone; \<^verbatim>\<open>total\<close> is the number of tasks; \<^verbatim>\<open>byStatus\<close> has exactly the five statuses
  and under each the number of tasks with that status (0 when there is none);
  \<^verbatim>\<open>byPriority\<close> has exactly the four priorities, likewise; and \<^verbatim>\<open>recentlyCompleted\<close>
  is the number of done tasks last changed within the 24 hours before the call. In the
  example the call is made at 2026-11-03T06:51:00.123Z: the task done 23 hours before
  is counted and the one done 25 hours before is not.
\<close>

theorem stats_counts_the_store:
  assumes "list_all enumerated (tasks st)" and "list_all2 (stamped now) (tasks st) stamps"
    and "86400000 \<le> now" and "now < maxTime"
  shows "\<exists>bs bp.
           getStats now st
             = (Response 200 (Some (JObj (fmap_of_list
                  [(''total'', JNum (of_nat (length (tasks st)))),
                   (''byStatus'', JObj bs),
                   (''byPriority'', JObj bp),
                   (''recentlyCompleted'',
                    JNum (of_nat (length (filter (recently_done now) (zip (tasks st) stamps)))))]))),
                st)
           \<and> (\<forall>s. fmlookup bs s
                  = (if s \<in> set VALID_STATUSES
                     then Some (JNum (of_nat (tally_of ''status'' s (tasks st)))) else None))
           \<and> (\<forall>p. fmlookup bp p
                  = (if p \<in> set VALID_PRIORITIES
                     then Some (JNum (of_nat (tally_of ''priority'' p (tasks st)))) else None))"
proof -
  let ?bs = "fmmap counter_json (counted VALID_STATUSES ''status'' (tasks st))"
  let ?bp = "fmmap counter_json (counted VALID_PRIORITIES ''priority'' (tasks st))"
  have l: "stats_loop (toISOString (now - 86400000)) (tasks st)
             \<lparr>byStatus = zero_counters VALID_STATUSES,
              byPriority = zero_counters VALID_PRIORITIES, recentlyCompleted = 0\<rparr>
           = Some \<lparr>byStatus = counted VALID_STATUSES ''status'' (tasks st),
                   byPriority = counted VALID_PRIORITIES ''priority'' (tasks st),
                   recentlyCompleted
                     = length (filter (recently_done now) (zip (tasks st) stamps))\<rparr>"
    using stats_loop_counts [OF assms, of "[]" 0] by (simp add: counted_Nil)
  have "getStats now st
          = (Response 200 (Some (JObj (fmap_of_list
                  [(''total'', JNum (of_nat (length (tasks st)))),
                   (''byStatus'', JObj ?bs),
                   (''byPriority'', JObj ?bp),
                   (''recentlyCompleted'',
                    JNum (of_nat (length (filter (recently_done now) (zip (tasks st) stamps)))))]))),
             st)"
    by (simp add: getStats_def l stats_body_def)
  moreover have "\<forall>s. fmlookup ?bs s
                  = (if s \<in> set VALID_STATUSES
                     then Some (JNum (of_nat (tally_of ''status'' s (tasks st)))) else None)"
    by (simp add: fmlookup_counted)
  moreover have "\<forall>p. fmlookup ?bp p
                  = (if p \<in> set VALID_PRIORITIES
                     then Some (JNum (of_nat (tally_of ''priority'' p (tasks st)))) else None)"
    by (simp add: fmlookup_counted)
  ultimately show ?thesis by blast
qed

definition stamped_card :: "string \<Rightarrow> string \<Rightarrow> string \<Rightarrow> obj" where
  "stamped_card i s u =
     fmap_of_list [(''id'', JStr i), (''title'', JStr ''T''), (''status'', JStr s),
                   (''priority'', JStr ''high''), (''updated_at'', JStr u)]"

definition stats_store :: state where
  "stats_store =
     \<lparr>tasks = [stamped_card ''a'' ''done'' ''2026-11-02T07:51:00.123Z'',
               stamped_card ''b'' ''done'' ''2026-11-02T05:51:00.123Z'',
               stamped_card ''c'' ''todo'' ''2026-11-03T05:51:00.123Z''],
      disk = [], events = []\<rparr>"

lemma stamps_of_the_example:
  "toISOString (1793605860123) = ''2026-11-02T07:51:00.123Z''"
  "toISOString (1793598660123) = ''2026-11-02T05:51:00.123Z''"
  "toISOString (1793685060123) = ''2026-11-03T05:51:00.123Z''"
  by code_simp+

theorem stats_counts_the_store_witness:
  "list_all enumerated (tasks stats_store)
   \<and> list_all2 (stamped 1793688660123) (tasks stats_store)
         [1793605860123, 1793598660123,
          1793685060123]
   \<and> (\<exists>bs bp.
         getStats 1793688660123 stats_store
           = (Response 200 (Some (JObj (fmap_of_list
                [(''total'', JNum 3), (''byStatus'', JObj bs), (''byPriority'', JObj bp),
                 (''recentlyCompleted'', JNum 1)]))),
              stats_store)
         \<and> fmlookup bs ''done'' = Some (JNum 2) \<and> fmlookup bs ''todo'' = Some (JNum 1)
         \<and> fmlookup bs ''review'' = Some (JNum 0) \<and> fmlookup bp ''high'' = Some (JNum 3)
         \<and> fmlookup bp ''low'' = Some (JNum 0))"
proof -
  have e: "list_all enumerated (tasks stats_store)"
    by (simp add: stats_store_def stamped_card_def enumerated_def fmlookup_of_list
          VALID_STATUSES_def VALID_PRIORITIES_def)
  have s: "list_all2 (stamped 1793688660123) (tasks stats_store)
             [1793605860123, 1793598660123,
              1793685060123]"
    by (simp add: stats_store_def stamped_def stamped_card_def fmlookup_of_list
          stamps_of_the_example)
  have n: "(86400000::int) \<le> 1793688660123" "(1793688660123::int) < maxTime"
    by (simp_all add: maxTime_def)
  from stats_counts_the_store [OF e s n] obtain bs bp where
    r: "getStats 1793688660123 stats_store
             = (Response 200 (Some (JObj (fmap_of_list
                  [(''total'', JNum (of_nat (length (tasks stats_store)))),
                   (''byStatus'', JObj bs),
                   (''byPriority'', JObj bp),
                   (''recentlyCompleted'',
                    JNum (of_nat (length (filter (recently_done 1793688660123)
                      (zip (tasks stats_store)
                         [1793605860123, 1793598660123,
                          1793685060123])))))]))),
                stats_store)"
    and bs: "\<forall>s. fmlookup bs s
                  = (if s \<in> set VALID_STATUSES
                     then Some (JNum (of_nat (tally_of ''status'' s (tasks stats_store))))
                     else None)"
    and bp: "\<forall>p. fmlookup bp p
                  = (if p \<in> set VALID_PRIORITIES
                     then Some (JNum (of_nat (tally_of ''priority'' p (tasks stats_store))))
                     else None)"
    by blast
  have c: "length (filter (recently_done 1793688660123)
                      (zip (tasks stats_store)
                         [1793605860123, 1793598660123,
                          1793685060123])) = 1"
    by (simp add: stats_store_def recently_done_def is_done_def stamped_card_def
          fmlookup_of_list)
  have t: "tally_of ''status'' ''done'' (tasks stats_store) = 2"
    "tally_of ''status'' ''todo'' (tasks stats_store) = 1"
    "tally_of ''status'' ''review'' (tasks stats_store) = 0"
    "tally_of ''priority'' ''high'' (tasks stats_store) = 3"
    "tally_of ''priority'' ''low'' (tasks stats_store) = 0"
    by (simp_all add: tally_of_def stats_store_def stamped_card_def fmlookup_of_list)
  have "length (tasks stats_store) = 3" by (simp add: stats_store_def)
  with r c have r': "getStats 1793688660123 stats_store
           = (Response 200 (Some (JObj (fmap_of_list
                [(''total'', JNum 3), (''byStatus'', JObj bs), (''byPriority'', JObj bp),
                 (''recentlyCompleted'', JNum 1)]))),
              stats_store)"
    by simp
  have "fmlookup bs ''done'' = Some (JNum 2) \<and> fmlookup bs ''todo'' = Some (JNum 1)
         \<and> fmlookup bs ''review'' = Some (JNum 0) \<and> fmlookup bp ''high'' = Some (JNum 3)
         \<and> fmlookup bp ''low'' = Some (JNum 0)"
    using bs bp t by (simp add: VALID_STATUSES_def VALID_PRIORITIES_def)
  with e s r' show ?thesis by blast
qed

section \<open>List\<close>

lemma str_includes_sublist: "str_includes hay needle \<longleftrightarrow> sublist needle hay"
  by (induction hay) (simp_all add: sublist_Cons_right)

text \<open>
  What the claim asks of a task, in its words: under every filter that is supplied, the
  task has the text of the filter as its status, priority or assignee, and the search
  text occurs, letter case aside, in its title or in its description. \<open>supplied\<close> says
  which parameters count as supplied.
\<close>

definition text_contains :: "string \<Rightarrow> json option \<Rightarrow> bool" where
  "text_contains search x =
     (\<exists>v. x = Some (JStr v) \<and> sublist (toLowerCase search) (toLowerCase v))"

definition satisfies_fields :: "(string option \<Rightarrow> bool) \<Rightarrow> query \<Rightarrow> obj \<Rightarrow> bool" where
  "satisfies_fields supplied q t =
     ((\<forall>s. supplied (q_status q) \<and> q_status q = Some s \<longrightarrow> fmlookup t ''status'' = Some (JStr s))
      \<and> (\<forall>s. supplied (q_priority q) \<and> q_priority q = Some s
             \<longrightarrow> fmlookup t ''priority'' = Some (JStr s))
      \<and> (\<forall>s. supplied (q_assignee q) \<and> q_assignee q = Some s
             \<longrightarrow> fmlookup t ''assignee'' = Some (JStr s)))"

definition satisfies :: "(string option \<Rightarrow> bool) \<Rightarrow> query \<Rightarrow> obj \<Rightarrow> bool" where
  "satisfies supplied q t =
     (satisfies_fields supplied q t
      \<and> (\<forall>s. supplied (q_search q) \<and> q_search q = Some s
             \<longrightarrow> text_contains s (fmlookup t ''title'')
                 \<or> text_contains s (fmlookup t ''description'')))"

text \<open>
  The order of the board: the rank of the status first, then \<^verbatim>\<open>order\<close> ascending. Two
  numbers ascend as numbers and two texts as texts; no other two values ascend, and a
  status outside the table has no rank.
\<close>

fun ascending :: "json option \<Rightarrow> json option \<Rightarrow> bool" where
  "ascending (Some (JNum x)) (Some (JNum y)) = (x \<le> y)"
| "ascending (Some (JStr x)) (Some (JStr y)) = str_le x y"
| "ascending x y = False"

definition board_le :: "obj \<Rightarrow> obj \<Rightarrow> bool" where
  "board_le a b =
     (case (rank_of a, rank_of b) of
        (Some ra, Some rb) \<Rightarrow>
          ra < rb \<or> (ra = rb \<and> ascending (fmlookup a ''order'') (fmlookup b ''order''))
      | _ \<Rightarrow> False)"

text \<open>
  A task with a status of the table and a number as \<^verbatim>\<open>order\<close>. A task on which the
  search for a text does not throw: its title is a text and, unless the title contains
  the text searched for, its description is a text.
\<close>

definition sortable :: "obj \<Rightarrow> bool" where
  "sortable t = (rank_of t \<noteq> None \<and> order_of t \<noteq> None)"

definition search_safe :: "string \<Rightarrow> obj \<Rightarrow> bool" where
  "search_safe s t =
     ((\<exists>v. fmlookup t ''title'' = Some (JStr v))
      \<and> (text_contains s (fmlookup t ''title'')
           \<or> (\<exists>v. fmlookup t ''description'' = Some (JStr v))))"

lemma filter_eq_filter:
  "filter_eq name param xs
     = filter (\<lambda>t. \<forall>s. given param \<and> param = Some s \<longrightarrow> fmlookup t name = Some (JStr s)) xs"
  by (cases param) (auto simp: filter_eq_def)

lemma filter_eq_satisfies:
  "filter_eq ''assignee'' (q_assignee q)
     (filter_eq ''priority'' (q_priority q) (filter_eq ''status'' (q_status q) xs))
   = filter (satisfies_fields given q) xs"
  by (auto simp: filter_eq_filter satisfies_fields_def intro!: filter_cong)

lemma matches_search_safe:
  assumes "search_safe s t"
  shows "matches_search (toLowerCase s) t
           = Inr (text_contains s (fmlookup t ''title'')
                  \<or> text_contains s (fmlookup t ''description''))"
  using assms
  by (auto simp: matches_search_def search_safe_def text_contains_def str_includes_sublist)

lemma filter_search_safe:
  assumes "list_all (search_safe s) xs"
  shows "filter_search (toLowerCase s) xs
           = Inr (filter (\<lambda>t. text_contains s (fmlookup t ''title'')
                              \<or> text_contains s (fmlookup t ''description'')) xs)"
  using assms
  by (induction xs) (simp_all add: matches_search_safe)

lemma compare_sortable:
  assumes "sortable a" "sortable b"
  shows "\<exists>ra rb oa ob. rank_of a = Some ra \<and> rank_of b = Some rb
           \<and> fmlookup a ''order'' = Some (JNum oa) \<and> fmlookup b ''order'' = Some (JNum ob)
           \<and> compare_tasks a b = Some (Num (if ra \<noteq> rb then ra - rb else oa - ob))"
  using assms
  by (auto simp: sortable_def rank_of_def order_of_def compare_tasks_def Let_def
      split: option.splits json.splits)

lemma sort_compare_sortable:
  assumes "sortable a" "sortable b"
  shows "\<exists>v. sort_compare a b = Some v \<and> (v \<le> 0 \<longleftrightarrow> board_le a b)"
  using compare_sortable [OF assms]
  by (auto simp: sort_compare_def board_le_def)

lemma board_le_total: "sortable a \<Longrightarrow> sortable b \<Longrightarrow> board_le a b \<or> board_le b a"
  by (auto simp: sortable_def board_le_def order_of_def split: option.splits json.splits)

lemma board_le_trans:
  "sortable a \<Longrightarrow> sortable b \<Longrightarrow> sortable c \<Longrightarrow> board_le a b \<Longrightarrow> board_le b c \<Longrightarrow> board_le a c"
  by (auto simp: sortable_def board_le_def order_of_def split: option.splits json.splits)

lemma consistent_sortable:
  assumes "list_all sortable xs"
  shows "consistent_comparison xs"
  unfolding consistent_comparison_def list_all_iff
proof (intro ballI)
  fix a b c
  assume "a \<in> set xs" "b \<in> set xs" "c \<in> set xs"
  with assms have s: "sortable a" "sortable b" "sortable c" by (simp_all add: list_all_iff)
  from compare_sortable [OF s(1) s(1)] compare_sortable [OF s(1) s(2)]
    compare_sortable [OF s(2) s(1)] compare_sortable [OF s(2) s(3)]
    compare_sortable [OF s(1) s(3)]
  show "case (sort_compare a a, sort_compare a b, sort_compare b a, sort_compare b c,
              sort_compare a c) of
          (Some aa, Some ab, Some ba, Some bc, Some ac) \<Rightarrow>
            aa = 0 \<and> (ab = 0 \<longrightarrow> ba = 0) \<and> (ab = 0 \<and> bc = 0 \<longrightarrow> ac = 0)
            \<and> (ab < 0 \<and> bc < 0 \<longrightarrow> ac < 0) \<and> (0 < ab \<and> 0 < bc \<longrightarrow> 0 < ac)
        | _ \<Rightarrow> False"
    by (auto simp: sort_compare_def split: if_splits)
qed

lemma comparable_sortable:
  assumes "list_all sortable xs"
  shows "list_all (\<lambda>a. list_all (\<lambda>b. compare_tasks a b \<noteq> None) xs) xs"
  using assms compare_sortable by (fastforce simp: list_all_iff)

lemma mset_insert_by: "mset (insert_by cmp x xs) = add_mset x (mset xs)"
  by (induction xs) (auto split: option.splits)

lemma set_insert_by: "set (insert_by cmp x xs) = insert x (set xs)"
  using mset_insert_by [of cmp x xs] by (metis set_mset_add_mset_insert set_mset_mset)

lemma sorted_insert_by:
  assumes "sortable x" "list_all sortable xs" "sorted_wrt board_le xs"
  shows "sorted_wrt board_le (insert_by sort_compare x xs)"
  using assms(2,3)
proof (induction xs)
  case Nil
  then show ?case by simp
next
  case (Cons y ys)
  from Cons.prems have y: "sortable y" "list_all sortable ys"
    and s: "\<forall>z \<in> set ys. board_le y z" "sorted_wrt board_le ys"
    by simp_all
  from sort_compare_sortable [OF assms(1) y(1)] obtain v where
    v: "sort_compare x y = Some v" "v \<le> 0 \<longleftrightarrow> board_le x y"
    by blast
  show ?case
  proof (cases "v \<le> 0")
    case True
    with v have "board_le x y" by simp
    with s(1) y assms(1) have "\<forall>z \<in> set (y # ys). board_le x z"
      by (auto simp: list_all_iff intro: board_le_trans)
    with True v Cons.prems show ?thesis by simp
  next
    case False
    with v board_le_total [OF assms(1) y(1)] have "board_le y x" by auto
    with s(1) have "\<forall>z \<in> set (insert_by sort_compare x ys). board_le y z"
      by (simp add: set_insert_by)
    with False v Cons.IH [OF y(2) s(2)] show ?thesis by simp
  qed
qed

lemma foldr_insert_by_sortable:
  assumes "list_all sortable xs"
  shows "mset (foldr (insert_by sort_compare) xs []) = mset xs
           \<and> sorted_wrt board_le (foldr (insert_by sort_compare) xs [])
           \<and> list_all sortable (foldr (insert_by sort_compare) xs [])"
  using assms
proof (induction xs)
  case Nil
  then show ?case by simp
next
  case (Cons x xs)
  then show ?case
    by (auto simp: mset_insert_by sorted_insert_by list_all_iff set_insert_by)
qed

lemma sort_tasks_sortable_eq:
  assumes "list_all sortable xs" and "1 < length xs"
  shows "sort_tasks xs = Sorted (foldr (insert_by sort_compare) xs [])"
  using assms consistent_sortable [OF assms(1)] comparable_sortable [OF assms(1)]
  by (simp add: sort_tasks_def)

lemma sort_tasks_sortable:
  assumes "length xs \<le> 1 \<or> list_all sortable xs"
  shows "\<exists>ys. sort_tasks xs = Sorted ys \<and> mset ys = mset xs \<and> sorted_wrt board_le ys"
proof (cases "length xs \<le> 1")
  case True
  then show ?thesis by (simp add: sort_tasks_def sorted_wrt01)
next
  case False
  with assms have s: "list_all sortable xs" and l: "1 < length xs" by simp_all
  from sort_tasks_sortable_eq [OF s l] foldr_insert_by_sortable [OF s] show ?thesis by simp
qed


text \<open>
  The claim about a query and a store: the answer is 200 with exactly the tasks that
  satisfy the supplied filters, in the order of the board, and the store is as before.
  \<open>supplied\<close> says which parameters count as supplied.
\<close>

definition lists_exactly :: "(string option \<Rightarrow> bool) \<Rightarrow> query \<Rightarrow> state \<Rightarrow> bool" where
  "lists_exactly supplied q st =
     (\<exists>ys. listTasks q st = (Response 200 (Some (JArr (map JObj ys))), st)
         \<and> mset ys = mset (filter (satisfies supplied q) (tasks st))
         \<and> sorted_wrt board_le ys)"

lemma filtered_satisfies:
  assumes "\<forall>s. given (q_search q) \<and> q_search q = Some s
             \<longrightarrow> list_all (search_safe s) (filter (satisfies_fields given q) xs)"
  shows "(case q_search q of
            None \<Rightarrow> Inr (filter_eq ''assignee'' (q_assignee q)
                         (filter_eq ''priority'' (q_priority q)
                           (filter_eq ''status'' (q_status q) xs)))
          | Some search \<Rightarrow>
              if given (q_search q)
              then filter_search (toLowerCase search)
                     (filter_eq ''assignee'' (q_assignee q)
                       (filter_eq ''priority'' (q_priority q)
                         (filter_eq ''status'' (q_status q) xs)))
              else Inr (filter_eq ''assignee'' (q_assignee q)
                         (filter_eq ''priority'' (q_priority q)
                           (filter_eq ''status'' (q_status q) xs))))
         = Inr (filter (satisfies given q) xs)"
proof (cases "given (q_search q)")
  case False
  then show ?thesis
    by (cases "q_search q")
       (auto simp: filter_eq_satisfies satisfies_def intro!: filter_cong)
next
  case True
  then obtain s where s: "q_search q = Some s" by (cases "q_search q") auto
  from True s assms have "list_all (search_safe s) (filter (satisfies_fields given q) xs)"
    by simp
  from filter_search_safe [OF this] True s show ?thesis
    by (auto simp: filter_eq_satisfies satisfies_def intro!: filter_cong)
qed

text \<open>
  C6, as amended. A filter given as the empty text counts as omitted. Take a store and a
  query such that, when a search text is given, the search throws on no task that has
  the status, the priority and the assignee asked for (the title is a text and, unless
  it contains the search text, the description is a text), and such that the tasks
  satisfying all the filters given, when there are two or more of them, have a status
  of the table and a number as \<^verbatim>\<open>order\<close>. Then List answers 200 with exactly the tasks that
  satisfy every filter given (status, priority, assignee by equality; search as a
  substring of the title or of the description, both in lower case), ordered by the
  rank of the status and then by \<^verbatim>\<open>order\<close>, and returns the store as it was.
\<close>

theorem list_returns_matching_in_board_order:
  assumes "\<forall>s. given (q_search q) \<and> q_search q = Some s
             \<longrightarrow> list_all (search_safe s) (filter (satisfies_fields given q) (tasks st))"
    and "length (filter (satisfies given q) (tasks st)) \<le> 1
         \<or> list_all sortable (filter (satisfies given q) (tasks st))"
  shows "lists_exactly given q st"
proof -
  from sort_tasks_sortable [OF assms(2)] obtain ys where
    ys: "sort_tasks (filter (satisfies given q) (tasks st)) = Sorted ys"
    "mset ys = mset (filter (satisfies given q) (tasks st))" "sorted_wrt board_le ys"
    by blast
  have "listTasks q st = (Response 200 (Some (JArr (map JObj ys))), st)"
    by (simp add: listTasks_def Let_def filtered_satisfies [OF assms(1)] ys(1))
  with ys(2,3) show ?thesis
    unfolding lists_exactly_def by blast
qed


text \<open>
  A board of four tasks and the query \<^verbatim>\<open>assignee=&search=LOGIN\<close>. The task \<^verbatim>\<open>a\<close> has a number
  as description, which the search does not read as its title matches; the task \<^verbatim>\<open>b\<close>
  has a text as \<^verbatim>\<open>order\<close> and does not match. The three matching tasks come in the
  order of the board.
\<close>

definition board_card :: "string \<Rightarrow> string \<Rightarrow> json \<Rightarrow> string \<Rightarrow> json \<Rightarrow> obj" where
  "board_card i title description status ord =
     fmap_of_list [(''id'', JStr i), (''title'', JStr title), (''description'', description),
                   (''status'', JStr status), (''order'', ord)]"

definition board :: state where
  "board =
     \<lparr>tasks = [board_card ''a'' ''Fix Login'' (JNum 5) ''todo'' (JNum 2),
               board_card ''b'' ''Write docs'' (JStr []) ''backlog'' (JStr ''last''),
               board_card ''c'' ''Styles'' (JStr ''for the login page'') ''todo'' (JNum 1),
               board_card ''d'' ''Login audit'' (JStr []) ''backlog'' (JNum 7)],
      disk = [], events = []\<rparr>"

definition login_query :: query where
  "login_query =
     \<lparr>q_status = None, q_priority = None, q_assignee = Some [], q_search = Some ''LOGIN''\<rparr>"

lemma lower_login: "toLowerCase ''LOGIN'' = ''login''"
  "toLowerCase ''Fix Login'' = ''fix login''" "toLowerCase ''Write docs'' = ''write docs''"
  "toLowerCase ''Styles'' = ''styles''" "toLowerCase ''for the login page'' = ''for the login page''"
  "toLowerCase ''Login audit'' = ''login audit''"
  by code_simp+

lemma text_contains_simps:
  "text_contains s (Some (JStr v)) = str_includes (toLowerCase v) (toLowerCase s)"
  "text_contains s (Some (JNum n)) = False"
  "text_contains s None = False"
  by (simp_all add: text_contains_def str_includes_sublist)

lemma board_fields:
  "filter (satisfies_fields given login_query) (tasks board) = tasks board"
  by (simp add: satisfies_fields_def login_query_def)

lemma board_safe: "list_all (search_safe ''LOGIN'') (tasks board)"
  by (simp add: board_def search_safe_def board_card_def fmlookup_of_list text_contains_simps
        lower_login)

lemma board_search_safe:
  "\<forall>s. given (q_search login_query) \<and> q_search login_query = Some s
     \<longrightarrow> list_all (search_safe s) (filter (satisfies_fields given login_query) (tasks board))"
  unfolding board_fields by (simp add: login_query_def board_safe)

lemma board_filtered:
  "filter (satisfies given login_query) (tasks board)
     = [board_card ''a'' ''Fix Login'' (JNum 5) ''todo'' (JNum 2),
        board_card ''c'' ''Styles'' (JStr ''for the login page'') ''todo'' (JNum 1),
        board_card ''d'' ''Login audit'' (JStr []) ''backlog'' (JNum 7)]"
  by (simp add: satisfies_def satisfies_fields_def login_query_def board_def board_card_def
        fmlookup_of_list text_contains_simps lower_login toLowerCase_def [of "[]"])

lemma board_sortable:
  "list_all sortable (filter (satisfies given login_query) (tasks board))"
  "\<not> list_all sortable (tasks board)"
  by (simp_all add: board_filtered)
     (simp_all add: board_def sortable_def rank_of_def order_of_def board_card_def
        fmlookup_of_list statusOrder_def)

lemma list_login:
  "listTasks login_query board
     = (Response 200 (Some (JArr
          [JObj (board_card ''d'' ''Login audit'' (JStr []) ''backlog'' (JNum 7)),
           JObj (board_card ''c'' ''Styles'' (JStr ''for the login page'') ''todo'' (JNum 1)),
           JObj (board_card ''a'' ''Fix Login'' (JNum 5) ''todo'' (JNum 2))])), board)"
proof -
  have c [simp]: "sort_compare (board_card i t d ''todo'' (JNum n)) (board_card i' t' d' ''todo'' (JNum n'))
                    = Some (n - n')"
    "sort_compare (board_card i t d ''todo'' (JNum n)) (board_card i' t' d' ''backlog'' (JNum n'))
                    = Some 1"
    "sort_compare (board_card i t d ''backlog'' (JNum n)) (board_card i' t' d' ''todo'' (JNum n'))
                    = Some (- 1)"
    for i t d n i' t' d' n'
    by (simp_all add: sort_compare_def compare_tasks_def board_card_def fmlookup_of_list
          statusOrder_def Let_def)
  have s: "(case q_search login_query of
            None \<Rightarrow> Inr (filter_eq ''assignee'' (q_assignee login_query)
                         (filter_eq ''priority'' (q_priority login_query)
                           (filter_eq ''status'' (q_status login_query) (tasks board))))
          | Some search \<Rightarrow>
              if given (q_search login_query)
              then filter_search (toLowerCase search)
                     (filter_eq ''assignee'' (q_assignee login_query)
                       (filter_eq ''priority'' (q_priority login_query)
                         (filter_eq ''status'' (q_status login_query) (tasks board))))
              else Inr (filter_eq ''assignee'' (q_assignee login_query)
                         (filter_eq ''priority'' (q_priority login_query)
                           (filter_eq ''status'' (q_status login_query) (tasks board)))))
         = Inr (filter (satisfies given login_query) (tasks board))"
    by (rule filtered_satisfies) (rule board_search_safe)
  have o: "sort_tasks (filter (satisfies given login_query) (tasks board))
             = Sorted (foldr (insert_by sort_compare)
                        (filter (satisfies given login_query) (tasks board)) [])"
    by (rule sort_tasks_sortable_eq [OF board_sortable(1)]) (simp add: board_filtered)
  show ?thesis
    unfolding listTasks_def Let_def s
    by (simp add: o) (simp add: board_filtered)
qed

theorem list_returns_matching_in_board_order_witness:
  "list_all (search_safe ''LOGIN'') (filter (satisfies_fields given login_query) (tasks board))
   \<and> list_all sortable (filter (satisfies given login_query) (tasks board))
   \<and> \<not> list_all sortable (tasks board)
   \<and> lists_exactly given login_query board
   \<and> listTasks login_query board
       = (Response 200 (Some (JArr
            [JObj (board_card ''d'' ''Login audit'' (JStr []) ''backlog'' (JNum 7)),
             JObj (board_card ''c'' ''Styles'' (JStr ''for the login page'') ''todo'' (JNum 1)),
             JObj (board_card ''a'' ''Fix Login'' (JNum 5) ''todo'' (JNum 2))])), board)"
proof -
  have a: "list_all (search_safe ''LOGIN'')
             (filter (satisfies_fields given login_query) (tasks board))"
    by (simp only: board_fields board_safe)
  from list_returns_matching_in_board_order [of login_query board] board_search_safe a
    board_sortable list_login
  show ?thesis by simp
qed

definition empty_store :: state where
  "empty_store = \<lparr>tasks = [], disk = [], events = []\<rparr>"

definition numbered_body :: json where
  "numbered_body = JObj (fmap_of_list [(''title'', JStr ''A''), (''description'', JNum 5)])"

definition search_x :: query where
  "search_x = \<lparr>q_status = None, q_priority = None, q_assignee = None, q_search = Some ''x''\<rparr>"

definition unassigned :: query where
  "unassigned = \<lparr>q_status = None, q_priority = None, q_assignee = Some [], q_search = None\<rparr>"

definition no_filter :: query where
  "no_filter = \<lparr>q_status = None, q_priority = None, q_assignee = None, q_search = None\<rparr>"

lemma validate_numbered: "validateTaskInput numbered_body False = Inr []"
  by (simp add: validateTaskInput_def numbered_body_def fmlookup_of_list trim_def is_ws_def
        defined_and_not_def)

lemma create_numbered:
  "createTask 0 ''u1'' True numbered_body empty_store
     = (Response 201 (Some (JObj (newTask ''u1'' (toISOString 0) numbered_body ''A''))),
        \<lparr>tasks = [newTask ''u1'' (toISOString 0) numbered_body ''A''],
         disk = [newTask ''u1'' (toISOString 0) numbered_body ''A''],
         events = [\<lparr>ev_type = ''task_created'',
                    ev_task = newTask ''u1'' (toISOString 0) numbered_body ''A'',
                    ev_timestamp = Some (JStr (toISOString 0))\<rparr>]\<rparr>)"
  by (simp add: createTask_def validate_numbered)
     (simp add: numbered_body_def fmlookup_of_list saveTasks_def Let_def empty_store_def
        broadcastToClients_def)

lemma search_numbered:
  "matches_search ''x'' (newTask ''u1'' (toISOString 0) numbered_body ''A'') = Inl TypeError"
proof -
  have "toLowerCase (trim ''A'') = ''a''" by code_simp
  then show ?thesis
    by (simp add: matches_search_def newTask_def fmlookup_of_list numbered_body_def
          or_default_def)
qed

text \<open>
  Two tasks created one after the other with the texts \<^verbatim>\<open>second\<close> and \<^verbatim>\<open>first\<close> as
  \<^verbatim>\<open>order\<close>; and two stores as the server can load them from its file, which it parses
  and does not check: two tasks with a status that is not in the table, and a task with
  a number as title.
\<close>

definition lettered :: "string \<Rightarrow> json" where
  "lettered v = JObj (fmap_of_list [(''title'', JStr ''A''), (''order'', JStr v)])"

definition text_ordered :: state where
  "text_ordered =
     snd (createTask 1 ''u2'' True (lettered ''first'')
            (snd (createTask 0 ''u1'' True (lettered ''second'') empty_store)))"

definition archive :: state where
  "archive =
     \<lparr>tasks = [board_card ''a'' ''A'' (JStr []) ''archived'' (JNum 2),
               board_card ''b'' ''B'' (JStr []) ''archived'' (JNum 1)],
      disk = [], events = []\<rparr>"

definition untitled :: state where
  "untitled =
     \<lparr>tasks = [fmap_of_list [(''id'', JStr ''a''), (''title'', JNum 7),
                 (''description'', JStr ''x-ray''), (''status'', JStr ''todo''),
                 (''order'', JNum 1)]],
      disk = [], events = []\<rparr>"

lemma validate_lettered: "validateTaskInput (lettered v) False = Inr []"
  by (simp add: validateTaskInput_def lettered_def fmlookup_of_list trim_def is_ws_def
        defined_and_not_def)

lemma tasks_text_ordered:
  "tasks text_ordered
     = [newTask ''u1'' (toISOString 0) (lettered ''second'') ''A'',
        newTask ''u2'' (toISOString 1) (lettered ''first'') ''A'']"
  by (simp add: text_ordered_def createTask_def validate_lettered)
     (simp add: lettered_def fmlookup_of_list saveTasks_def Let_def empty_store_def
        broadcastToClients_def)

lemma compare_lettered:
  "compare_tasks (newTask i n (lettered ''second'') t) (newTask i' n' (lettered ''first'') t') = Some NaN"
  "compare_tasks (newTask i n (lettered ''first'') t) (newTask i' n' (lettered ''second'') t') = Some NaN"
  "compare_tasks (newTask i n (lettered ''first'') t) (newTask i' n' (lettered ''first'') t') = Some NaN"
  "compare_tasks (newTask i n (lettered ''second'') t) (newTask i' n' (lettered ''second'') t') = Some NaN"
  by (simp_all add: compare_tasks_def newTask_def lettered_def fmlookup_of_list or_default_def
        statusOrder_def Let_def literal_char_def is_ws_def)

lemma list_text_ordered:
  "listTasks no_filter text_ordered
     = (Response 200 (Some (JArr (map JObj (tasks text_ordered)))), text_ordered)"
  by (simp add: listTasks_def no_filter_def filter_eq_def tasks_text_ordered sort_tasks_def
        consistent_comparison_def sort_compare_def compare_lettered Let_def)

lemma compare_archive:
  "compare_tasks (board_card i t d ''archived'' n) (board_card i' t' d' ''archived'' n') = Some NaN"
  by (simp add: compare_tasks_def board_card_def fmlookup_of_list statusOrder_def Let_def)

lemma list_archive:
  "listTasks no_filter archive = (Response 200 (Some (JArr (map JObj (tasks archive)))), archive)"
  by (simp add: listTasks_def no_filter_def filter_eq_def archive_def sort_tasks_def
        consistent_comparison_def sort_compare_def compare_archive Let_def)

lemma lists_exactly_ordered:
  assumes "lists_exactly supplied q st"
    and "listTasks q st = (Response 200 (Some (JArr (map JObj ys))), st)"
  shows "sorted_wrt board_le ys"
proof -
  from assms(1) obtain zs where
    z: "listTasks q st = (Response 200 (Some (JArr (map JObj zs))), st)"
    and s: "sorted_wrt board_le zs"
    unfolding lists_exactly_def by blast
  from z assms(2) have "map JObj zs = map JObj ys" by simp
  then have "zs = ys" by (simp add: inj_map_eq_map inj_on_def)
  with s show ?thesis by simp
qed

text \<open>
  C6 as stated speaks of every store and every combination of filters. Five requests
  show otherwise. A task created with the number 5 as description (the validator does
  not look at the description) makes every search that its title does not match throw,
  and the answer is 500. A filter given as the empty text is not applied: the query
  \<^verbatim>\<open>assignee=\<close> returns the task assigned to bob. Two tasks of one status created with
  the texts \<^verbatim>\<open>second\<close> and \<^verbatim>\<open>first\<close> as \<^verbatim>\<open>order\<close> (nothing validates \<^verbatim>\<open>order\<close>, C10) are
  listed as they were created, \<^verbatim>\<open>second\<close> before \<^verbatim>\<open>first\<close>: the difference of two such
  texts is NaN, which the sort takes for equality. Two stored tasks with a status that
  is not in the table, which has no rank, are listed as they are stored, the \<^verbatim>\<open>order\<close> 2
  before the \<^verbatim>\<open>order\<close> 1. And a stored task whose title is a number makes every search
  throw, also one that its description matches.
\<close>

theorem list_departs_from_claim:
  "\<not> lists_exactly (\<lambda>p. p \<noteq> None) search_x
       (snd (createTask 0 ''u1'' True numbered_body empty_store))
   \<and> fst (listTasks search_x (snd (createTask 0 ''u1'' True numbered_body empty_store)))
       = internal_error
   \<and> \<not> lists_exactly (\<lambda>p. p \<noteq> None) unassigned demo_store
   \<and> fmlookup demo_task ''assignee'' = Some (JStr ''bob'')
   \<and> fst (listTasks unassigned demo_store) = Response 200 (Some (JArr [JObj demo_task]))
   \<and> \<not> lists_exactly (\<lambda>p. p \<noteq> None) no_filter text_ordered
   \<and> fst (listTasks no_filter text_ordered)
       = Response 200 (Some (JArr (map JObj (tasks text_ordered))))
   \<and> map (\<lambda>t. fmlookup t ''status'') (tasks text_ordered)
       = [Some (JStr ''backlog''), Some (JStr ''backlog'')]
   \<and> map (\<lambda>t. fmlookup t ''order'') (tasks text_ordered)
       = [Some (JStr ''second''), Some (JStr ''first'')]
   \<and> \<not> lists_exactly (\<lambda>p. p \<noteq> None) no_filter archive
   \<and> fst (listTasks no_filter archive) = Response 200 (Some (JArr (map JObj (tasks archive))))
   \<and> map (\<lambda>t. fmlookup t ''status'') (tasks archive)
       = [Some (JStr ''archived''), Some (JStr ''archived'')]
   \<and> map (\<lambda>t. fmlookup t ''order'') (tasks archive) = [Some (JNum 2), Some (JNum 1)]
   \<and> \<not> lists_exactly (\<lambda>p. p \<noteq> None) search_x untitled
   \<and> fst (listTasks search_x untitled) = internal_error"
proof -
  have x: "toLowerCase ''x'' = ''x''" by code_simp
  have l1: "listTasks search_x (snd (createTask 0 ''u1'' True numbered_body empty_store))
              = (internal_error, snd (createTask 0 ''u1'' True numbered_body empty_store))"
    by (simp add: create_numbered listTasks_def search_x_def filter_eq_def search_numbered x)
  have l2: "listTasks unassigned demo_store = (Response 200 (Some (JArr [JObj demo_task])), demo_store)"
    by (simp add: listTasks_def unassigned_def filter_eq_def demo_store_def sort_tasks_def
          Let_def)
  have s: "\<not> satisfies (\<lambda>p. p \<noteq> None) unassigned demo_task"
    by (simp add: satisfies_def satisfies_fields_def unassigned_def demo_task_def
          fmlookup_of_list)
  have c1: "\<not> lists_exactly (\<lambda>p. p \<noteq> None) search_x
       (snd (createTask 0 ''u1'' True numbered_body empty_store))"
    by (simp add: lists_exactly_def l1 internal_error_def)
  have c2: "\<not> lists_exactly (\<lambda>p. p \<noteq> None) unassigned demo_store"
  proof
    assume "lists_exactly (\<lambda>p. p \<noteq> None) unassigned demo_store"
    then obtain ys where
      a: "listTasks unassigned demo_store = (Response 200 (Some (JArr (map JObj ys))), demo_store)"
      and b: "mset ys = mset (filter (satisfies (\<lambda>p. p \<noteq> None) unassigned) (tasks demo_store))"
      unfolding lists_exactly_def by blast
    have "filter (satisfies (\<lambda>p. p \<noteq> None) unassigned) (tasks demo_store) = []"
      using s by (simp add: demo_store_def)
    with b have "mset ys = mset []" by (simp only:)
    then have "ys = []" by simp
    with a l2 show False by simp
  qed
  have o3: "map (\<lambda>t. fmlookup t ''status'') (tasks text_ordered)
              = [Some (JStr ''backlog''), Some (JStr ''backlog'')]"
    "map (\<lambda>t. fmlookup t ''order'') (tasks text_ordered)
              = [Some (JStr ''second''), Some (JStr ''first'')]"
    by (simp_all add: tasks_text_ordered newTask_def lettered_def fmlookup_of_list or_default_def)
  have c3: "\<not> lists_exactly (\<lambda>p. p \<noteq> None) no_filter text_ordered"
  proof
    assume "lists_exactly (\<lambda>p. p \<noteq> None) no_filter text_ordered"
    from lists_exactly_ordered [OF this list_text_ordered]
    show False
      by (simp add: tasks_text_ordered board_le_def rank_of_def newTask_def lettered_def
            fmlookup_of_list or_default_def statusOrder_def)
  qed
  have o4: "map (\<lambda>t. fmlookup t ''status'') (tasks archive)
              = [Some (JStr ''archived''), Some (JStr ''archived'')]"
    "map (\<lambda>t. fmlookup t ''order'') (tasks archive) = [Some (JNum 2), Some (JNum 1)]"
    by (simp_all add: archive_def board_card_def fmlookup_of_list)
  have c4: "\<not> lists_exactly (\<lambda>p. p \<noteq> None) no_filter archive"
  proof
    assume "lists_exactly (\<lambda>p. p \<noteq> None) no_filter archive"
    from lists_exactly_ordered [OF this list_archive]
    show False
      by (simp add: archive_def board_le_def rank_of_def board_card_def fmlookup_of_list
            statusOrder_def)
  qed
  have l5: "listTasks search_x untitled = (internal_error, untitled)"
    by (simp add: listTasks_def search_x_def filter_eq_def untitled_def matches_search_def
          fmlookup_of_list x)
  have c5: "\<not> lists_exactly (\<lambda>p. p \<noteq> None) search_x untitled"
    by (simp add: lists_exactly_def l5 internal_error_def)
  have d: "fmlookup demo_task ''assignee'' = Some (JStr ''bob'')"
    by (simp add: demo_task_def fmlookup_of_list)
  show ?thesis
    using c1 c2 c3 c4 c5 o3 o4 d by (simp add: l1 l2 l5 list_text_ordered list_archive)
qed

end
